theory Spec2Isabelle
  imports Complex_Main "HOL-Library.Char_ord" "HOL-Library.List_Lexorder" "HOL-Library.Log_Nat"
begin

section \<open>The OCR pipeline of \<^verbatim>\<open>ocr_python.py\<close>: \<^verbatim>\<open>ModernOCRApp.process_pdf\<close>\<close>

text \<open>
  \<^verbatim>\<open>process_pdf\<close> drives two external tools (\<^verbatim>\<open>pdftoppm\<close>, then \<^verbatim>\<open>tesseract\<close> once per
  page image), writes the recognised text to one output file and reports progress and log
  lines to the window. Everything it does is an effect on the outside world, so the model
  is a function from a description of that world to the ordered trace of the effects the
  method performs, together with the way the method is left (falling off the end, an early
  \<^verbatim>\<open>return\<close>, or an exception). What the file system holds afterwards is read off the trace.

  Modelling decisions:
  \<^item> \<^verbatim>\<open>subprocess.run(cmd, capture_output=True, text=True)\<close> never raises on a non-zero
    exit status; it raises when the program cannot be started. Its result is a sum:
    \<open>Inl msg\<close> for an exception with \<^verbatim>\<open>str(e) = msg\<close>, \<open>Inr\<close> for a completed process.
  \<^item> \<^verbatim>\<open>open(output_path, 'w')\<close> and \<^verbatim>\<open>shutil.rmtree(temp_dir)\<close> may raise as well;
    \<^verbatim>\<open>mkdtemp\<close>, \<^verbatim>\<open>os.listdir\<close>, \<^verbatim>\<open>write\<close> and the widget calls are taken to succeed.
  \<^item> \<^verbatim>\<open>self.processing_cancelled\<close> is written by the window's thread at any time. The
    world gives the value the flag has at each program point of interest; the method reads
    it at two of them only.
  \<^item> \<^verbatim>\<open>20 + (70 * i / total_pages)\<close> is computed in binary floating point: the quotient
    of two integers is the double nearest to the exact quotient, and the sum is the double
    nearest to the exact sum. A double is modelled by the rational number it stands for,
    and rounding to the nearest double (ties to even) is a function on the rationals.
  \<^item> Python strings are modelled as \<open>string\<close>; \<^verbatim>\<open>sorted\<close> on names is the lexicographic
    order on characters.
\<close>

subsection \<open>Data\<close>

datatype level = INFO | SUCCESS | WARNING | ERROR

record completed_process =
  returncode :: int
  stdout :: string
  stderr :: string

text \<open>The program points at which the value of \<^verbatim>\<open>self.processing_cancelled\<close> is given.
  \<open>Page_start i\<close> is the top of the loop iteration with \<^verbatim>\<open>enumerate\<close> index \<open>i\<close> (page \<open>i + 1\<close>).\<close>

datatype point = Before_pdftoppm | After_pdftoppm | Page_start nat

record world =
  pdf_path :: string
  output_path :: string
  language :: string
  cleanup_images :: bool
  temp_dir :: string
  run :: "string list \<Rightarrow> string + completed_process"
  listdir :: "string list"
  open_w :: "string option"
  rmtree :: "string option"
  cancelled :: "point \<Rightarrow> bool"

text \<open>
  \<open>temp_dir\<close> is the directory \<^verbatim>\<open>tempfile.mkdtemp(prefix="ocr_")\<close> returns, \<open>run\<close> the
  behaviour of \<^verbatim>\<open>subprocess.run\<close> on a command line, \<open>listdir\<close> what
  \<^verbatim>\<open>os.listdir(temp_dir)\<close> returns after the rasteriser has run, \<open>open_w\<close> and \<open>rmtree\<close>
  the exception message of \<^verbatim>\<open>open(output_path, 'w')\<close> and \<^verbatim>\<open>shutil.rmtree(temp_dir)\<close>
  (\<open>None\<close> when the call succeeds).
\<close>

datatype event =
    Mkdtemp string
  | Log level string
  | Status string
  | Progress rat
  | Label string
  | Run "string list"
  | Open_w string
  | Write string
  | Rmtree string
  | View_enabled
  | Schedule_showinfo string string
  | Schedule_showerror
  | Schedule_reset_ui

text \<open>
  \<open>Run cmd\<close> records the call \<^verbatim>\<open>subprocess.run(cmd, ...)\<close>. \<open>Open_w\<close> and \<open>Rmtree\<close> are
  recorded when the call has returned normally, so they stand for the truncation of the
  output file and the removal of the directory. \<open>Progress\<close> is \<^verbatim>\<open>self.progress_var.set\<close>,
  \<open>Label\<close> is \<^verbatim>\<open>self.progress_label.config(text=...)\<close>, \<open>Status\<close> is
  \<^verbatim>\<open>self.status_var.set\<close>, \<open>Log\<close> is \<^verbatim>\<open>self.log_message\<close>. \<open>Schedule_reset_ui\<close> is
  \<^verbatim>\<open>self.root.after(0, self.reset_ui)\<close>: the reset itself runs later, in the window's
  thread. \<open>Schedule_showinfo\<close> and \<open>Schedule_showerror\<close> are the calls of
  \<^verbatim>\<open>self.root.after\<close> at lines 447 and 454, which hand a dialog to the window's thread. The
  first carries the title and the text of the dialog. The second carries nothing: its
  callback reads the variable \<^verbatim>\<open>e\<close> of the \<^verbatim>\<open>except\<close> clause, which Python unbinds at
  the end of the clause, before the callback runs, so the text is never built.
\<close>

datatype flow = Normal | Return | Raise string

datatype outcome = Completed | Cancelled | FatalError

subsection \<open>Python helpers\<close>

text \<open>\<^verbatim>\<open>str(n)\<close> for a non-negative integer, as the f-strings format page numbers.\<close>

fun str_nat :: "nat \<Rightarrow> string" where
  "str_nat n =
     (if n < 10 then [''0123456789'' ! n]
      else str_nat (n div 10) @ [''0123456789'' ! (n mod 10)])"

declare str_nat.simps [simp del]

text \<open>\<^verbatim>\<open>s.endswith(suf)\<close>.\<close>

definition endswith :: "string \<Rightarrow> string \<Rightarrow> bool" where
  "endswith s suf \<longleftrightarrow>
     length suf \<le> length s \<and> drop (length s - length suf) s = suf"

text \<open>\<^verbatim>\<open>os.path.join(a, b)\<close> on POSIX, for two arguments.\<close>

definition path_join :: "string \<Rightarrow> string \<Rightarrow> string" where
  "path_join a b =
     (if b \<noteq> [] \<and> hd b = CHR ''/'' then b
      else if a = [] \<or> last a = CHR ''/'' then a @ b
      else a @ ''/'' @ b)"

text \<open>
  Python's \<^verbatim>\<open>float\<close> is the IEEE 754 binary64 format: a finite double is \<open>m * 2\<^sup>e\<close> with an
  integer \<open>\<bar>m\<bar> < 2\<^sup>5\<^sup>3\<close> and \<open>- 1074 \<le> e \<le> 971\<close>. \<open>round_even\<close> rounds a rational to the
  nearest integer, a tie to the even one; \<open>ilog2 x\<close> is \<open>\<lfloor>log\<^sub>2 x\<rfloor>\<close> for \<open>x > 0\<close>;
  \<open>double_exponent x\<close> is the exponent \<open>e\<close> of the doubles around \<open>x\<close> (the subnormal doubles
  share the least exponent); \<open>double_round x\<close> is the double nearest to \<open>x\<close>, for
  \<open>\<bar>x\<bar> < 2\<^sup>1\<^sup>0\<^sup>2\<^sup>4\<close>. The values of the method stay below 128.
\<close>

definition round_even :: "rat \<Rightarrow> int" where
  "round_even x =
     (let n = \<lfloor>x\<rfloor>; r = x - of_int n
      in if r < 1 / 2 then n else if 1 / 2 < r then n + 1 else if even n then n else n + 1)"

definition ilog2 :: "rat \<Rightarrow> int" where
  "ilog2 x =
     (if 1 \<le> x then int (floorlog 2 (nat \<lfloor>x\<rfloor>)) - 1
      else - int (floorlog 2 (nat (\<lceil>1 / x\<rceil> - 1))))"

definition double_exponent :: "rat \<Rightarrow> int" where
  "double_exponent x = max (ilog2 \<bar>x\<bar> - 52) (- 1074)"

definition double_round :: "rat \<Rightarrow> rat" where
  "double_round x =
     of_int (round_even (x / 2 powi double_exponent x)) * 2 powi double_exponent x"

text \<open>\<^verbatim>\<open>a / b\<close> on two integers, \<open>b \<noteq> 0\<close>: the double nearest to the quotient. In the loop
  \<open>b\<close> is \<^verbatim>\<open>total_pages\<close>, which is not zero there (line 398).\<close>

definition int_truediv :: "int \<Rightarrow> int \<Rightarrow> rat" where
  "int_truediv a b = double_round (of_int a / of_int b)"

text \<open>\<^verbatim>\<open>a + b\<close> on two doubles (an integer operand such as \<^verbatim>\<open>20\<close> is converted exactly).\<close>

definition float_add :: "rat \<Rightarrow> rat \<Rightarrow> rat" where
  "float_add a b = double_round (a + b)"

subsection \<open>The method\<close>

definition pdftoppm_cmd :: "world \<Rightarrow> string list" where
  "pdftoppm_cmd w = [''pdftoppm'', pdf_path w, temp_dir w @ ''/page'', ''-png'']"

definition tesseract_cmd :: "world \<Rightarrow> string \<Rightarrow> string list" where
  "tesseract_cmd w image_file =
     [''tesseract'', path_join (temp_dir w) image_file, ''stdout'', ''-l'', language w]"

text \<open>Line 395: \<^verbatim>\<open>sorted([f for f in os.listdir(temp_dir) if f.endswith('.png')])\<close>.\<close>

definition image_files :: "world \<Rightarrow> string list" where
  "image_files w = sort (filter (\<lambda>f. endswith f ''.png'') (listdir w))"

text \<open>Lines 411 to 427, the body of the loop after the cancellation check.\<close>

definition ocr_page :: "world \<Rightarrow> nat \<Rightarrow> nat \<Rightarrow> string \<Rightarrow> flow \<times> event list" where
  "ocr_page w total_pages i image_file =
     (let page_num = i + 1;
          progress = float_add 20 (int_truediv (70 * int i) (int total_pages));
          cmd = tesseract_cmd w image_file;
          es = [Progress progress,
                Label (''Processing page '' @ str_nat page_num @ '' of '' @ str_nat total_pages),
                Run cmd]
      in case run w cmd of
           Inl e \<Rightarrow> (Raise e, es)
         | Inr result \<Rightarrow>
             if returncode result = 0 then
               (Normal, es @
                  [Write (''\<newline>\<newline>--- Page '' @ str_nat page_num @ '' ---\<newline>''),
                   Write (stdout result),
                   Log INFO (''Processed page '' @ str_nat page_num)])
             else
               (Normal, es @
                  [Log WARNING (''OCR failed for page '' @ str_nat page_num @ '': ''
                                 @ stderr result)]))"

text \<open>Sequencing: the second part runs when the first ends normally; a \<^verbatim>\<open>return\<close> or an
  exception in the first part skips it.\<close>

definition seq :: "flow \<times> event list \<Rightarrow> flow \<times> event list \<Rightarrow> flow \<times> event list" where
  "seq a b = (case a of (Normal, es) \<Rightarrow> (fst b, es @ snd b) | (fl, es) \<Rightarrow> (fl, es))"

text \<open>Lines 407 to 427: \<^verbatim>\<open>for i, image_file in enumerate(image_files)\<close>, started at
  index \<open>i\<close> on the files that remain.\<close>

fun ocr_loop :: "world \<Rightarrow> nat \<Rightarrow> nat \<Rightarrow> string list \<Rightarrow> flow \<times> event list" where
  "ocr_loop w total_pages i [] = (Normal, [])"
| "ocr_loop w total_pages i (image_file # rest) =
     (if cancelled w (Page_start i) then (Return, [])
      else seq (ocr_page w total_pages i image_file) (ocr_loop w total_pages (i + 1) rest))"

text \<open>Lines 371 to 404: the temporary directory, the rasteriser, the cancellation check
  after it and the count of the pages.\<close>

definition rasterise :: "world \<Rightarrow> flow \<times> event list" where
  "rasterise w =
     (let cmd = pdftoppm_cmd w;
          es = [Mkdtemp (temp_dir w),
                Log INFO ''Starting OCR processing...'',
                Status ''Converting PDF to images...'',
                Progress 10,
                Label ''Converting PDF to images...'',
                Run cmd]
      in case run w cmd of
           Inl e \<Rightarrow> (Raise e, es)
         | Inr result \<Rightarrow>
             if returncode result \<noteq> 0 then
               (Raise (''PDF conversion failed: '' @ stderr result), es)
             else if cancelled w After_pdftoppm then (Return, es)
             else
               (let total_pages = length (image_files w)
                in if total_pages = 0 then (Raise ''No images generated from PDF'', es)
                   else
                     (Normal, es @
                        [Log SUCCESS (''Generated '' @ str_nat total_pages
                                       @ '' images from PDF''),
                         Status ''Extracting text using OCR...''])))"

text \<open>Lines 406 to 427: the \<^verbatim>\<open>with open(output_path, 'w', ...)\<close> block around the loop.\<close>

definition recognise :: "world \<Rightarrow> flow \<times> event list" where
  "recognise w =
     (case open_w w of
        Some e \<Rightarrow> (Raise e, [])
      | None \<Rightarrow>
          seq (Normal, [Open_w (output_path w)])
              (ocr_loop w (length (image_files w)) 0 (image_files w)))"

text \<open>Lines 429 to 449: cleanup and completion.\<close>

definition cleanup_and_complete :: "world \<Rightarrow> flow \<times> event list" where
  "cleanup_and_complete w =
     (let completion =
            [Progress 100,
             Label ''Processing complete!'',
             Log SUCCESS ''OCR processing completed successfully!'',
             Log SUCCESS (''Output saved to: '' @ output_path w),
             Status ''Processing completed successfully'',
             View_enabled,
             Schedule_showinfo ''Success''
               (''OCR processing completed successfully!\<newline>\<newline>''
                @ ''Text extracted and saved to:\<newline>'' @ output_path w)]
      in if cleanup_images w then
           (let es = [Progress 95, Label ''Cleaning up temporary files...'']
            in case rmtree w of
                 Some e \<Rightarrow> (Raise e, es)
               | None \<Rightarrow>
                   (Normal, es @ [Rmtree (temp_dir w),
                                  Log INFO ''Temporary files cleaned up''] @ completion))
         else (Normal, completion))"

text \<open>Lines 371 to 449: the body of the \<^verbatim>\<open>try\<close> block.\<close>

definition process_body :: "world \<Rightarrow> flow \<times> event list" where
  "process_body w = seq (rasterise w) (seq (recognise w) (cleanup_and_complete w))"

text \<open>Lines 451 to 454: the \<^verbatim>\<open>except Exception as e\<close> clause.\<close>

definition handler :: "string \<Rightarrow> event list" where
  "handler e =
     [Log ERROR (''Error: '' @ e),
      Status ''Error occurred during processing'',
      Schedule_showerror]"

text \<open>Lines 368 to 458: the whole method, with its \<^verbatim>\<open>except\<close> and \<^verbatim>\<open>finally\<close> clauses.\<close>

definition process_pdf :: "world \<Rightarrow> outcome \<times> event list" where
  "process_pdf w =
     (case process_body w of
        (Normal, es) \<Rightarrow> (Completed, es @ [Schedule_reset_ui])
      | (Return, es) \<Rightarrow> (Cancelled, es @ [Schedule_reset_ui])
      | (Raise e, es) \<Rightarrow> (FatalError, es @ handler e @ [Schedule_reset_ui]))"

definition job_outcome :: "world \<Rightarrow> outcome" where
  "job_outcome w = fst (process_pdf w)"

definition trace :: "world \<Rightarrow> event list" where
  "trace w = snd (process_pdf w)"

subsection \<open>Reading the trace\<close>

fun progress_of :: "event \<Rightarrow> rat list" where
  "progress_of (Progress p) = [p]"
| "progress_of _ = []"

fun log_of :: "event \<Rightarrow> (level \<times> string) list" where
  "log_of (Log l m) = [(l, m)]"
| "log_of _ = []"

fun run_of :: "event \<Rightarrow> string list list" where
  "run_of (Run cmd) = [cmd]"
| "run_of _ = []"

definition progress_values :: "event list \<Rightarrow> rat list" where
  "progress_values es = concat (map progress_of es)"

definition logs :: "event list \<Rightarrow> (level \<times> string) list" where
  "logs es = concat (map log_of es)"

definition runs :: "event list \<Rightarrow> string list list" where
  "runs es = concat (map run_of es)"

text \<open>The content of the file at \<^verbatim>\<open>output_path\<close> after the events, from the content
  before them (\<open>None\<close>: the file does not exist). Opening with mode \<^verbatim>\<open>'w'\<close> creates or
  truncates; the \<^verbatim>\<open>with\<close> statement closes the file however the block is left, so every
  write reaches the file.\<close>

fun file_content :: "string option \<Rightarrow> event list \<Rightarrow> string option" where
  "file_content old [] = old"
| "file_content old (Open_w p # es) = file_content (Some []) es"
| "file_content old (Write s # es) = file_content (map_option (\<lambda>c. c @ s) old) es"
| "file_content old (e # es) = file_content old es"

text \<open>Whether the temporary directory exists after the events.\<close>

fun work_area_exists :: "bool \<Rightarrow> event list \<Rightarrow> bool" where
  "work_area_exists b [] = b"
| "work_area_exists b (Mkdtemp d # es) = work_area_exists True es"
| "work_area_exists b (Rmtree d # es) = work_area_exists False es"
| "work_area_exists b (e # es) = work_area_exists b es"

subsection \<open>What the claims talk about\<close>

text \<open>The result of the OCR tool on an image file of the temporary directory.\<close>

definition ocr_result :: "world \<Rightarrow> string \<Rightarrow> string + completed_process" where
  "ocr_result w f = run w (tesseract_cmd w f)"

text \<open>The tool ran and exited with status zero.\<close>

definition recognised :: "world \<Rightarrow> string \<Rightarrow> bool" where
  "recognised w f \<longleftrightarrow> (case ocr_result w f of Inl e \<Rightarrow> False | Inr r \<Rightarrow> returncode r = 0)"

text \<open>The tool could be started (whatever its exit status).\<close>

definition launched :: "world \<Rightarrow> string \<Rightarrow> bool" where
  "launched w f \<longleftrightarrow> (case ocr_result w f of Inl e \<Rightarrow> False | Inr r \<Rightarrow> True)"

definition ocr_stdout :: "world \<Rightarrow> string \<Rightarrow> string" where
  "ocr_stdout w f = (case ocr_result w f of Inl e \<Rightarrow> [] | Inr r \<Rightarrow> stdout r)"

definition ocr_stderr :: "world \<Rightarrow> string \<Rightarrow> string" where
  "ocr_stderr w f = (case ocr_result w f of Inl e \<Rightarrow> [] | Inr r \<Rightarrow> stderr r)"

text \<open>The block of the output format, as the specification words it: two newlines, the
  separator line of page \<open>n\<close>, then the text.\<close>

definition page_block :: "nat \<Rightarrow> string \<Rightarrow> string" where
  "page_block n text = ''\<newline>\<newline>--- Page '' @ str_nat n @ '' ---\<newline>'' @ text"

text \<open>What a page contributes to the output file: its block when it is recognised,
  nothing otherwise.\<close>

definition block_of :: "world \<Rightarrow> nat \<times> string \<Rightarrow> string" where
  "block_of w nf =
     (if recognised w (snd nf) then page_block (fst nf) (ocr_stdout w (snd nf)) else [])"

text \<open>The log line of a page whose OCR run returned.\<close>

definition page_log :: "world \<Rightarrow> nat \<times> string \<Rightarrow> level \<times> string" where
  "page_log w nf =
     (if recognised w (snd nf) then (INFO, ''Processed page '' @ str_nat (fst nf))
      else (WARNING, ''OCR failed for page '' @ str_nat (fst nf) @ '': ''
                      @ ocr_stderr w (snd nf)))"

text \<open>The files with their page numbers: \<open>[(1, f\<^sub>1), (2, f\<^sub>2), ...]\<close>.\<close>

definition numbered :: "string list \<Rightarrow> (nat \<times> string) list" where
  "numbered fs = enumerate 1 fs"

text \<open>The progress value of page \<open>i\<close> of \<open>N\<close>, as the specification words it.\<close>

definition page_progress :: "nat \<Rightarrow> nat \<Rightarrow> rat" where
  "page_progress N i = 20 + 70 * (of_nat i - 1) / of_nat N"

text \<open>The progress value the method computes for page \<open>i\<close> of \<open>N\<close> (loop index \<open>i - 1\<close>): a
  double.\<close>

definition page_value :: "nat \<Rightarrow> nat \<Rightarrow> rat" where
  "page_value N i = float_add 20 (int_truediv (70 * (int i - 1)) (int N))"

text \<open>The rasteriser ran and exited with status zero.\<close>

definition rasterised :: "world \<Rightarrow> bool" where
  "rasterised w \<longleftrightarrow>
     (case run w (pdftoppm_cmd w) of Inl e \<Rightarrow> False | Inr r \<Rightarrow> returncode r = 0)"

text \<open>The job gets as far as the loop over the pages: the rasteriser exits with status
  zero, the flag is not set at the check after it, there is at least one image and the
  output file can be opened.\<close>

definition enters_loop :: "world \<Rightarrow> bool" where
  "enters_loop w \<longleftrightarrow>
     rasterised w \<and> \<not> cancelled w After_pdftoppm \<and> image_files w \<noteq> [] \<and> open_w w = None"

text \<open>The flag is not set at the top of any iteration.\<close>

definition never_cancelled_in_loop :: "world \<Rightarrow> bool" where
  "never_cancelled_in_loop w \<longleftrightarrow>
     (\<forall>i \<in> set [0..<length (image_files w)]. \<not> cancelled w (Page_start i))"

text \<open>The number of iterations of the loop, started at index \<open>i\<close> on the files \<open>fs\<close>,
  that get past the cancellation check.\<close>

fun pages_started :: "world \<Rightarrow> nat \<Rightarrow> string list \<Rightarrow> nat" where
  "pages_started w i [] = 0"
| "pages_started w i (f # fs) =
     (if cancelled w (Page_start i) then 0
      else if launched w f then Suc (pages_started w (Suc i) fs)
      else 1)"

definition pages_run :: "world \<Rightarrow> nat" where
  "pages_run w = pages_started w 0 (image_files w)"

text \<open>The loop is left at its end: every page is started and the OCR tool could be
  started on each.\<close>

definition loop_completes :: "world \<Rightarrow> bool" where
  "loop_completes w \<longleftrightarrow>
     enters_loop w \<and> never_cancelled_in_loop w \<and> (\<forall>f \<in> set (image_files w). launched w f)"

text \<open>The OCR tool returns on every page, with a non-zero status on page \<open>k\<close> and with
  status zero on every other page.\<close>

definition only_page_fails :: "world \<Rightarrow> nat \<Rightarrow> bool" where
  "only_page_fails w k \<longleftrightarrow>
     1 \<le> k \<and> k \<le> length (image_files w) \<and>
     (\<forall>nf \<in> set (numbered (image_files w)).
        launched w (snd nf) \<and> (recognised w (snd nf) \<longleftrightarrow> fst nf \<noteq> k))"

subsection \<open>Example jobs\<close>

text \<open>A world for examples: the document is \<^verbatim>\<open>doc.pdf\<close>, the temporary directory
  \<^verbatim>\<open>/tmp/ocr_a\<close>, the rasteriser exits with status zero, and the OCR tool behaves on each
  image path as the table says (it cannot be started on a path that is not in the table).\<close>

definition example_run ::
  "(string \<times> completed_process) list \<Rightarrow> string list \<Rightarrow> string + completed_process" where
  "example_run table cmd =
     (if cmd = [''pdftoppm'', ''doc.pdf'', ''/tmp/ocr_a/page'', ''-png'']
      then Inr \<lparr>returncode = 0, stdout = [], stderr = []\<rparr>
      else case cmd of
             [tool, path, out, opt, lang] \<Rightarrow>
               (if tool = ''tesseract'' \<and> out = ''stdout'' \<and> opt = ''-l'' \<and> lang = ''eng''
                then (case map_of table path of
                        Some r \<Rightarrow> Inr r
                      | None \<Rightarrow> Inl ''No such file or directory'')
                else Inl ''No such file or directory'')
           | _ \<Rightarrow> Inl ''No such file or directory'')"

definition example_world ::
  "string list \<Rightarrow> (string \<times> completed_process) list \<Rightarrow> string option \<Rightarrow>
   (point \<Rightarrow> bool) \<Rightarrow> world" where
  "example_world names table rm flag =
     \<lparr>pdf_path = ''doc.pdf'', output_path = ''out.txt'', language = ''eng'',
      cleanup_images = True, temp_dir = ''/tmp/ocr_a'',
      run = example_run table, listdir = names,
      open_w = None, rmtree = rm, cancelled = flag\<rparr>"

definition ok :: "string \<Rightarrow> completed_process" where
  "ok text = \<lparr>returncode = 0, stdout = text, stderr = []\<rparr>"

definition failed :: "string \<Rightarrow> completed_process" where
  "failed err = \<lparr>returncode = 1, stdout = [], stderr = err\<rparr>"

text \<open>Two pages, both recognised; the listing is not in order and holds a file that is
  not an image.\<close>

definition two_pages :: world where
  "two_pages =
     example_world [''page-2.png'', ''notes.txt'', ''page-1.png'']
       [(''/tmp/ocr_a/page-1.png'', ok ''Hello''), (''/tmp/ocr_a/page-2.png'', ok ''World'')]
       None (\<lambda>p. False)"

text \<open>The scenario of the specification: three pages, the second fails.\<close>

definition three_pages_table :: "(string \<times> completed_process) list" where
  "three_pages_table =
     [(''/tmp/ocr_a/page-1.png'', ok ''Hello''),
      (''/tmp/ocr_a/page-2.png'', failed ''bad image''),
      (''/tmp/ocr_a/page-3.png'', ok ''World'')]"

definition second_fails :: world where
  "second_fails =
     example_world [''page-1.png'', ''page-2.png'', ''page-3.png''] three_pages_table
       None (\<lambda>p. False)"

text \<open>The same pages, in a job in which the removal of the temporary directory raises.\<close>

definition second_fails_rmtree_raises :: world where
  "second_fails_rmtree_raises =
     example_world [''page-1.png'', ''page-2.png'', ''page-3.png''] three_pages_table
       (Some ''[Errno 13] Permission denied'') (\<lambda>p. False)"

text \<open>Three pages, all recognised, in jobs that differ in the flag and in the cleanup.\<close>

definition all_ok_table :: "(string \<times> completed_process) list" where
  "all_ok_table =
     [(''/tmp/ocr_a/page-1.png'', ok ''One''),
      (''/tmp/ocr_a/page-2.png'', ok ''Two''),
      (''/tmp/ocr_a/page-3.png'', ok ''Three'')]"

text \<open>The flag is set while page 1 is being recognised and stays set.\<close>

definition cancel_during_page_1 :: world where
  "cancel_during_page_1 =
     example_world [''page-1.png'', ''page-2.png'', ''page-3.png''] all_ok_table
       None (\<lambda>p. case p of Page_start i \<Rightarrow> 1 \<le> i | _ \<Rightarrow> False)"

text \<open>The flag is set from the start.\<close>

definition cancel_at_start :: world where
  "cancel_at_start =
     example_world [''page-1.png'', ''page-2.png'', ''page-3.png''] all_ok_table
       None (\<lambda>p. True)"

text \<open>The flag is set while the rasteriser runs.\<close>

definition cancel_during_pdftoppm :: world where
  "cancel_during_pdftoppm =
     example_world [''page-1.png'', ''page-2.png'', ''page-3.png''] all_ok_table
       None (\<lambda>p. p \<noteq> Before_pdftoppm)"

text \<open>The removal of the temporary directory raises.\<close>

definition rmtree_fails :: world where
  "rmtree_fails =
     example_world [''page-1.png'', ''page-2.png'', ''page-3.png''] all_ok_table
       (Some ''[Errno 13] Permission denied'') (\<lambda>p. False)"

text \<open>The rasteriser leaves no image, in a job that is not cancelled and in one
  cancelled while the rasteriser runs.\<close>

definition no_images :: world where
  "no_images = example_world [''notes.txt''] [] None (\<lambda>p. False)"

definition no_images_cancelled :: world where
  "no_images_cancelled = example_world [''notes.txt''] [] None (\<lambda>p. p \<noteq> Before_pdftoppm)"

text \<open>Every page fails.\<close>

definition all_fail :: world where
  "all_fail =
     example_world [''page-1.png'', ''page-2.png'']
       [(''/tmp/ocr_a/page-1.png'', failed ''bad image''),
        (''/tmp/ocr_a/page-2.png'', failed ''bad image'')]
       None (\<lambda>p. False)"

text \<open>File names without zero padding: \<^verbatim>\<open>page-10.png\<close> sorts before \<^verbatim>\<open>page-2.png\<close>.\<close>

definition unpadded :: world where
  "unpadded =
     example_world [''page-2.png'', ''notes.txt'', ''page-10.png'']
       [(''/tmp/ocr_a/page-2.png'', ok ''second''), (''/tmp/ocr_a/page-10.png'', ok ''tenth'')]
       None (\<lambda>p. False)"

text \<open>The same directory as in \<open>unpadded\<close>, listed in another order.\<close>

definition unpadded_reordered :: world where
  "unpadded_reordered =
     example_world [''notes.txt'', ''page-10.png'', ''page-2.png'']
       [(''/tmp/ocr_a/page-2.png'', ok ''second''), (''/tmp/ocr_a/page-10.png'', ok ''tenth'')]
       None (\<lambda>p. False)"

section \<open>Properties\<close>

subsection \<open>Rounding to a double\<close>

lemma round_even_bounds: "\<lfloor>x\<rfloor> \<le> round_even x \<and> round_even x \<le> \<lfloor>x\<rfloor> + 1"
  by (simp add: round_even_def Let_def)

lemma round_even_of_int: "round_even (of_int n) = n"
  by (simp add: round_even_def)

lemma round_even_mono:
  assumes "x \<le> y"
  shows "round_even x \<le> round_even y"
proof (cases "\<lfloor>x\<rfloor> = \<lfloor>y\<rfloor>")
  case True
  with assms have "x - of_int \<lfloor>x\<rfloor> \<le> y - of_int \<lfloor>y\<rfloor>" by simp
  with True show ?thesis by (auto simp: round_even_def Let_def)
next
  case False
  with assms have "\<lfloor>x\<rfloor> < \<lfloor>y\<rfloor>" using floor_mono [of x y] by linarith
  then have "\<lfloor>x\<rfloor> + 1 \<le> \<lfloor>y\<rfloor>" by simp
  with round_even_bounds [of x] round_even_bounds [of y] show ?thesis by linarith
qed

lemma round_even_error: "\<bar>of_int (round_even x) - x\<bar> \<le> 1 / 2"
proof -
  have "of_int \<lfloor>x\<rfloor> \<le> x" "x < of_int \<lfloor>x\<rfloor> + 1" by linarith+
  then show ?thesis by (auto simp: round_even_def Let_def abs_le_iff)
qed

lemma ilog2_bounds:
  assumes "0 < x"
  shows "2 powi ilog2 x \<le> x \<and> x < 2 powi (ilog2 x + 1)"
proof (cases "1 \<le> x")
  case True
  define n where "n = nat \<lfloor>x\<rfloor>"
  from True have n: "0 < n" "of_nat n \<le> x" "x < of_nat n + 1"
    unfolding n_def by (simp_all add: le_floor_iff) linarith+
  define k where "k = floorlog 2 n"
  from floorlog_bounds [of n 2] n(1) have b: "2 ^ (k - 1) \<le> n" "n < 2 ^ k"
    by (simp_all add: k_def)
  from b(2) have k: "0 < k" by (cases k) (use n(1) in simp_all)
  from True have il: "ilog2 x = int k - 1" by (simp add: ilog2_def k_def n_def)
  from k have e1: "int k - 1 = int (k - 1)" by simp
  from b(1) have "(of_nat (2 ^ (k - 1)) :: rat) \<le> of_nat n" by (rule of_nat_mono)
  then have "(2::rat) ^ (k - 1) \<le> of_nat n" by simp
  with n(2) have lo: "(2::rat) powi (int k - 1) \<le> x" by (simp only: e1 power_int_of_nat)
  from b(2) have "n + 1 \<le> 2 ^ k" by simp
  then have "(of_nat (n + 1) :: rat) \<le> of_nat (2 ^ k)" by (rule of_nat_mono)
  then have "(of_nat n + 1 :: rat) \<le> 2 ^ k" by simp
  with n(3) have hi: "x < (2::rat) powi (int k)" by simp
  from lo hi il show ?thesis by simp
next
  case False
  with assms have x: "0 < x" "x < 1" by simp_all
  define c where "c = \<lceil>1 / x\<rceil>"
  from x have y: "1 < 1 / x" by simp
  then have c: "2 \<le> c" unfolding c_def by linarith
  have cy: "1 / x \<le> of_int c" "of_int c - 1 < 1 / x" unfolding c_def by linarith+
  define n where "n = nat (c - 1)"
  from c have n: "0 < n" "int n = c - 1" by (simp_all add: n_def)
  define k where "k = floorlog 2 n"
  from floorlog_bounds [of n 2] n(1) have b: "2 ^ (k - 1) \<le> n" "n < 2 ^ k"
    by (simp_all add: k_def)
  from b(2) have k: "0 < k" by (cases k) (use n(1) in simp_all)
  from False have il: "ilog2 x = - int k" by (simp add: ilog2_def k_def n_def c_def)
  from b(2) have "n + 1 \<le> 2 ^ k" by simp
  then have "int (n + 1) \<le> int (2 ^ k)" by (rule of_nat_mono)
  then have "int n + 1 \<le> 2 ^ k" by simp
  with n(2) have "c \<le> 2 ^ k" by simp
  then have "(of_int c :: rat) \<le> of_int (2 ^ k)" by (simp only: of_int_le_iff)
  then have "(of_int c :: rat) \<le> 2 ^ k" by simp
  with cy(1) have "1 / x \<le> 2 ^ k" by linarith
  with x(1) have "1 \<le> x * 2 ^ k" by (simp add: field_simps)
  then have lo: "2 powi (- int k) \<le> x"
    by (simp add: power_int_minus field_simps)
  from b(1) have "int (2 ^ (k - 1)) \<le> int n" by (rule of_nat_mono)
  then have "(2::int) ^ (k - 1) \<le> int n" by simp
  with n(2) have "(2::int) ^ (k - 1) \<le> c - 1" by simp
  then have "(of_int (2 ^ (k - 1)) :: rat) \<le> of_int (c - 1)" by (simp only: of_int_le_iff)
  then have "(2::rat) ^ (k - 1) \<le> of_int c - 1" by simp
  with cy(2) have "(2::rat) ^ (k - 1) < 1 / x" by linarith
  with x(1) have "x * 2 ^ (k - 1) < 1" by (simp add: field_simps)
  then have "x < 1 / 2 ^ (k - 1)" by (simp add: field_simps)
  moreover have "- int k + 1 = - int (k - 1)" using k by simp
  then have "(2::rat) powi (- int k + 1) = 1 / 2 ^ (k - 1)"
    by (simp only: power_int_minus_divide power_int_of_nat)
  ultimately have hi: "x < 2 powi (- int k + 1)" by simp
  from lo hi il show ?thesis by simp
qed

lemma ilog2_mono:
  assumes "0 < x" and "x \<le> y"
  shows "ilog2 x \<le> ilog2 y"
proof (rule ccontr)
  assume "\<not> ilog2 x \<le> ilog2 y"
  then have "ilog2 y + 1 \<le> ilog2 x" by simp
  then have "(2::rat) powi (ilog2 y + 1) \<le> 2 powi ilog2 x"
    by (intro power_int_increasing) simp_all
  with ilog2_bounds [of x] ilog2_bounds [of y] assms show False by simp
qed


lemma double_exponent_ge: "- 1074 \<le> double_exponent x" "ilog2 \<bar>x\<bar> - 52 \<le> double_exponent x"
  by (simp_all add: double_exponent_def)

lemma double_exponent_mono:
  assumes "0 < x" and "x \<le> y"
  shows "double_exponent x \<le> double_exponent y"
  using ilog2_mono [OF assms] assms by (simp add: double_exponent_def)

lemma double_round_nonneg:
  assumes "0 \<le> x"
  shows "0 \<le> double_round x"
proof -
  from assms have "0 \<le> x / 2 powi double_exponent x" by simp
  then have "round_even 0 \<le> round_even (x / 2 powi double_exponent x)" by (rule round_even_mono)
  then have "0 \<le> round_even (x / 2 powi double_exponent x)"
    using round_even_of_int [of 0] by simp
  then show ?thesis by (simp add: double_round_def)
qed

lemma double_round_upper:
  assumes "0 < x"
  shows "double_round x \<le> 2 powi (double_exponent x + 53)"
proof -
  let ?e = "double_exponent x"
  from ilog2_bounds [OF assms] have "x < 2 powi (ilog2 x + 1)" by simp
  also have "\<dots> \<le> 2 powi (?e + 53)"
    using double_exponent_ge(2) [of x] assms by (intro power_int_increasing) simp_all
  finally have "x < 2 powi ?e * 2 ^ 53" by (simp add: power_int_add)
  then have "x / 2 powi ?e \<le> of_int (2 ^ 53)" by (simp add: field_simps)
  then have "round_even (x / 2 powi ?e) \<le> round_even (of_int (2 ^ 53))" by (rule round_even_mono)
  then have "round_even (x / 2 powi ?e) \<le> 2 ^ 53" by (simp only: round_even_of_int)
  then have "(of_int (round_even (x / 2 powi ?e)) :: rat) \<le> of_int (2 ^ 53)"
    by (simp only: of_int_le_iff)
  then have "(of_int (round_even (x / 2 powi ?e)) :: rat) \<le> 2 ^ 53" by simp
  then have "(of_int (round_even (x / 2 powi ?e)) :: rat) * 2 powi ?e \<le> 2 ^ 53 * 2 powi ?e"
    by (intro mult_right_mono) simp_all
  then show ?thesis by (simp add: double_round_def power_int_add mult.commute)
qed

lemma double_round_lower:
  assumes "0 < x" and "- 1074 < double_exponent x"
  shows "2 powi (double_exponent x + 52) \<le> double_round x"
proof -
  let ?e = "double_exponent x"
  from assms have e: "?e = ilog2 x - 52" by (simp add: double_exponent_def)
  from ilog2_bounds [OF assms(1)] have "2 powi (?e + 52) \<le> x" by (simp add: e)
  then have "2 powi ?e * 2 ^ 52 \<le> x" by (simp add: power_int_add)
  then have "of_int (2 ^ 52) \<le> x / 2 powi ?e" by (simp add: field_simps)
  then have "round_even (of_int (2 ^ 52)) \<le> round_even (x / 2 powi ?e)" by (rule round_even_mono)
  then have "2 ^ 52 \<le> round_even (x / 2 powi ?e)" by (simp only: round_even_of_int)
  then have "(of_int (2 ^ 52) :: rat) \<le> of_int (round_even (x / 2 powi ?e))"
    by (simp only: of_int_le_iff)
  then have "(2 ^ 52 :: rat) \<le> of_int (round_even (x / 2 powi ?e))" by simp
  then have "(2 ^ 52 :: rat) * 2 powi ?e \<le> of_int (round_even (x / 2 powi ?e)) * 2 powi ?e"
    by (intro mult_right_mono) simp_all
  then show ?thesis by (simp add: double_round_def power_int_add mult.commute)
qed

lemma double_round_mono:
  assumes "0 \<le> x" and "x \<le> y"
  shows "double_round x \<le> double_round y"
proof (cases "x = 0")
  case True
  have "double_round 0 = 0" by (simp add: double_round_def round_even_of_int [of 0, simplified])
  with True double_round_nonneg [of y] assms show ?thesis by simp
next
  case False
  with assms have pos: "0 < x" "0 < y" by simp_all
  from double_exponent_mono [OF pos(1) assms(2)]
  consider "double_exponent x = double_exponent y" | "double_exponent x < double_exponent y"
    by linarith
  then show ?thesis
  proof cases
    case 1
    from assms(2) have "x / 2 powi double_exponent y \<le> y / 2 powi double_exponent y"
      by (intro divide_right_mono) simp_all
    then have "round_even (x / 2 powi double_exponent y) \<le> round_even (y / 2 powi double_exponent y)"
      by (rule round_even_mono)
    then have "(of_int (round_even (x / 2 powi double_exponent y)) :: rat)
                 \<le> of_int (round_even (y / 2 powi double_exponent y))"
      by (simp only: of_int_le_iff)
    then show ?thesis
      unfolding double_round_def 1 by (intro mult_right_mono) simp_all
  next
    case 2
    with double_exponent_ge(1) [of x] have "- 1074 < double_exponent y" by simp
    from double_round_lower [OF pos(2) this]
    have "2 powi (double_exponent y + 52) \<le> double_round y" .
    moreover from 2 have "(2::rat) powi (double_exponent x + 53) \<le> 2 powi (double_exponent y + 52)"
      by (intro power_int_increasing) simp_all
    moreover note double_round_upper [OF pos(1)]
    ultimately show ?thesis by linarith
  qed
qed

lemma double_round_error: "\<bar>double_round x - x\<bar> \<le> 2 powi double_exponent x / 2"
proof -
  let ?p = "(2::rat) powi double_exponent x"
  have p: "0 < ?p" by simp
  have "double_round x - x = (of_int (round_even (x / ?p)) - x / ?p) * ?p"
    by (simp add: double_round_def field_simps)
  then have "\<bar>double_round x - x\<bar> = \<bar>of_int (round_even (x / ?p)) - x / ?p\<bar> * ?p"
    by (simp add: abs_mult)
  also have "\<dots> \<le> (1 / 2) * ?p"
    using round_even_error [of "x / ?p"] by (intro mult_right_mono) simp_all
  finally show ?thesis by simp
qed

lemma double_exponent_small:
  assumes "0 \<le> x" and "x < 128"
  shows "double_exponent x \<le> - 46"
proof (cases "x = 0")
  case True
  have "ilog2 0 = 0" by (simp add: ilog2_def floorlog_def)
  with True show ?thesis by (simp add: double_exponent_def)
next
  case False
  with assms have pos: "0 < x" by simp
  have "ilog2 x < 7"
  proof (rule ccontr)
    assume "\<not> ilog2 x < 7"
    then have "(2::rat) powi 7 \<le> 2 powi ilog2 x" by (intro power_int_increasing) simp_all
    with ilog2_bounds [OF pos] assms(2) show False by simp
  qed
  with pos show ?thesis by (simp add: double_exponent_def)
qed

lemma double_round_error_small:
  assumes "0 \<le> x" and "x < 128"
  shows "\<bar>double_round x - x\<bar> \<le> 1 / 2 ^ 47"
proof -
  from double_exponent_small [OF assms]
  have "(2::rat) powi double_exponent x \<le> 2 powi (- 46)"
    by (intro power_int_increasing) simp_all
  then have "(2::rat) powi double_exponent x / 2 \<le> 2 powi (- 46) / 2" by simp
  also have "\<dots> = 1 / 2 ^ 47" by (simp add: power_int_minus_divide)
  finally show ?thesis using double_round_error [of x] by linarith
qed


lemma double_round_exact:
  "double_round 0 = 0" "double_round 20 = 20" "double_round 70 = 70" "double_round 90 = 90"
  by code_simp+

subsection \<open>Reading a trace piece by piece\<close>

lemma progress_values_append: "progress_values (a @ b) = progress_values a @ progress_values b"
  by (simp add: progress_values_def)

lemma logs_append: "logs (a @ b) = logs a @ logs b"
  by (simp add: logs_def)

lemma runs_append: "runs (a @ b) = runs a @ runs b"
  by (simp add: runs_def)

lemma progress_values_Cons: "progress_values (e # es) = progress_of e @ progress_values es"
  by (simp add: progress_values_def)

lemma logs_Cons: "logs (e # es) = log_of e @ logs es"
  by (simp add: logs_def)

lemma runs_Cons: "runs (e # es) = run_of e @ runs es"
  by (simp add: runs_def)

lemma progress_values_Nil: "progress_values [] = []"
  by (simp add: progress_values_def)

lemma logs_Nil: "logs [] = []"
  by (simp add: logs_def)

lemma runs_Nil: "runs [] = []"
  by (simp add: runs_def)

lemmas read_simps = progress_values_append logs_append runs_append
  progress_values_Cons logs_Cons runs_Cons progress_values_Nil logs_Nil runs_Nil

lemma file_content_append: "file_content c (a @ b) = file_content (file_content c a) b"
  by (induction c a rule: file_content.induct) simp_all

lemma work_area_exists_append:
  "work_area_exists b (es @ es') = work_area_exists (work_area_exists b es) es'"
  by (induction b es rule: work_area_exists.induct) simp_all

subsection \<open>One page\<close>

lemma ocr_page_runs: "runs (snd (ocr_page w T i f)) = [tesseract_cmd w f]"
  by (simp add: ocr_page_def Let_def read_simps split: sum.splits)

lemma ocr_page_progress:
  "progress_values (snd (ocr_page w T i f)) = [float_add 20 (int_truediv (70 * int i) (int T))]"
  by (simp add: ocr_page_def Let_def read_simps split: sum.splits)

lemma ocr_page_file:
  "file_content (Some c) (snd (ocr_page w T i f)) = Some (c @ block_of w (Suc i, f))"
  by (simp add: ocr_page_def Let_def block_of_def recognised_def ocr_stdout_def ocr_result_def
      page_block_def split: sum.splits)

lemma ocr_page_work_area: "work_area_exists b (snd (ocr_page w T i f)) = b"
  by (simp add: ocr_page_def Let_def split: sum.splits)

lemma ocr_page_logs:
  "logs (snd (ocr_page w T i f)) = (if launched w f then [page_log w (Suc i, f)] else [])"
  by (simp add: ocr_page_def Let_def page_log_def recognised_def launched_def ocr_stderr_def
      ocr_result_def read_simps split: sum.splits)

lemma ocr_page_flow:
  "fst (ocr_page w T i f) = (case ocr_result w f of Inl e \<Rightarrow> Raise e | Inr r \<Rightarrow> Normal)"
  by (simp add: ocr_page_def Let_def ocr_result_def split: sum.splits)

lemma ocr_page_Normal: "fst (ocr_page w T i f) = Normal \<longleftrightarrow> launched w f"
  by (simp add: ocr_page_flow launched_def split: sum.splits)

subsection \<open>The loop\<close>

lemma pages_started_le: "pages_started w i fs \<le> length fs"
  by (induction fs arbitrary: i) simp_all

lemma fst_seq: "fst (seq a b) = (if fst a = Normal then fst b else fst a)"
  by (cases a; cases "fst a") (simp_all add: seq_def)

lemma snd_seq: "snd (seq a b) = (if fst a = Normal then snd a @ snd b else snd a)"
  by (cases a; cases "fst a") (simp_all add: seq_def)

lemma ocr_loop_events:
  "snd (ocr_loop w T i fs) =
     concat (map (\<lambda>(j, f). snd (ocr_page w T j f))
       (take (pages_started w i fs) (enumerate i fs)))"
  by (induction fs arbitrary: i) (simp_all add: snd_seq ocr_page_Normal)

lemma ocr_loop_flow:
  "fst (ocr_loop w T i fs) = Normal \<longleftrightarrow>
     pages_started w i fs = length fs \<and> (\<forall>f \<in> set fs. launched w f)"
  by (induction fs arbitrary: i) (auto simp: fst_seq ocr_page_Normal)

lemma pages_started_not_cancelled:
  "j < pages_started w i fs \<Longrightarrow> \<not> cancelled w (Page_start (i + j))"
proof (induction fs arbitrary: i j)
  case Nil
  then show ?case by simp
next
  case (Cons f fs)
  show ?case
  proof (cases j)
    case 0
    with Cons.prems show ?thesis by (auto split: if_splits)
  next
    case (Suc j')
    with Cons.prems have "j' < pages_started w (Suc i) fs"
      by (auto split: if_splits)
    from Cons.IH [OF this] Suc show ?thesis by simp
  qed
qed

lemma pages_started_all:
  "(\<forall>j < length fs. \<not> cancelled w (Page_start (i + j))) \<Longrightarrow> (\<forall>f \<in> set fs. launched w f) \<Longrightarrow>
   pages_started w i fs = length fs"
proof (induction fs arbitrary: i)
  case Nil
  show ?case by simp
next
  case (Cons f fs)
  from Cons.prems(1) have c0: "\<not> cancelled w (Page_start i)" by force
  have "\<forall>j < length fs. \<not> cancelled w (Page_start (Suc i + j))"
  proof (intro allI impI)
    fix j assume "j < length fs"
    then have "Suc j < length (f # fs)" by simp
    with Cons.prems(1) have "\<not> cancelled w (Page_start (i + Suc j))" by blast
    then show "\<not> cancelled w (Page_start (Suc i + j))" by simp
  qed
  with Cons.IH [of "Suc i"] Cons.prems(2) c0 show ?case by simp
qed


lemma map_snd_take_enumerate: "map snd (take m (enumerate i fs)) = take m fs"
  by (simp add: take_map [symmetric])

lemma map_fst_take_enumerate:
  "m \<le> length fs \<Longrightarrow> map fst (take m (enumerate i fs)) = [i..<i + m]"
  by (simp add: take_map [symmetric] take_upt)

lemma runs_concat: "runs (concat xss) = concat (map runs xss)"
  by (induction xss) (simp_all add: runs_Nil runs_append)

lemma progress_values_concat: "progress_values (concat xss) = concat (map progress_values xss)"
  by (induction xss) (simp_all add: progress_values_Nil progress_values_append)

lemma logs_concat: "logs (concat xss) = concat (map logs xss)"
  by (induction xss) (simp_all add: logs_Nil logs_append)

lemma concat_map_single: "concat (map (\<lambda>x. [g x]) xs) = map g xs"
  by (induction xs) simp_all

lemma ocr_loop_runs:
  "runs (snd (ocr_loop w T i fs)) = map (tesseract_cmd w) (take (pages_started w i fs) fs)"
proof -
  have "runs (snd (ocr_loop w T i fs)) =
          concat (map (\<lambda>jf. [tesseract_cmd w (snd jf)]) (take (pages_started w i fs) (enumerate i fs)))"
    by (simp add: ocr_loop_events runs_concat comp_def case_prod_beta ocr_page_runs)
  also have "\<dots> = map (tesseract_cmd w) (map snd (take (pages_started w i fs) (enumerate i fs)))"
    by (simp add: concat_map_single comp_def)
  finally show ?thesis by (simp only: map_snd_take_enumerate)
qed

lemma ocr_loop_progress:
  "progress_values (snd (ocr_loop w T i fs)) =
     map (\<lambda>j. float_add 20 (int_truediv (70 * int j) (int T))) [i..<i + pages_started w i fs]"
proof -
  have "progress_values (snd (ocr_loop w T i fs)) =
          concat (map (\<lambda>jf. [float_add 20 (int_truediv (70 * int (fst jf)) (int T))])
            (take (pages_started w i fs) (enumerate i fs)))"
    by (simp add: ocr_loop_events progress_values_concat comp_def case_prod_beta ocr_page_progress)
  also have "\<dots> = map (\<lambda>j. float_add 20 (int_truediv (70 * int j) (int T)))
                     (map fst (take (pages_started w i fs) (enumerate i fs)))"
    by (simp add: concat_map_single comp_def)
  finally show ?thesis by (simp only: map_fst_take_enumerate [OF pages_started_le])
qed

lemma map_Suc_enumerate: "map (\<lambda>jf. (Suc (fst jf), snd jf)) (enumerate i fs) = enumerate (Suc i) fs"
  by (induction fs arbitrary: i) simp_all

lemma ocr_loop_logs:
  "logs (snd (ocr_loop w T i fs)) =
     concat (map (\<lambda>nf. if launched w (snd nf) then [page_log w nf] else [])
       (take (pages_started w i fs) (enumerate (Suc i) fs)))"
proof -
  have "logs (snd (ocr_loop w T i fs)) =
          concat (map (\<lambda>jf. if launched w (snd jf) then [page_log w (Suc (fst jf), snd jf)] else [])
            (take (pages_started w i fs) (enumerate i fs)))"
    by (simp add: ocr_loop_events logs_concat comp_def case_prod_beta ocr_page_logs)
  also have "\<dots> = concat (map (\<lambda>nf. if launched w (snd nf) then [page_log w nf] else [])
       (map (\<lambda>jf. (Suc (fst jf), snd jf)) (take (pages_started w i fs) (enumerate i fs))))"
    by (simp add: comp_def)
  finally show ?thesis by (simp only: take_map [symmetric] map_Suc_enumerate)
qed

lemma file_content_pages:
  "file_content (Some c) (concat (map (\<lambda>jf. snd (ocr_page w T (fst jf) (snd jf))) xs)) =
     Some (c @ concat (map (\<lambda>jf. block_of w (Suc (fst jf), snd jf)) xs))"
  by (induction xs arbitrary: c) (simp_all add: file_content_append ocr_page_file)

lemma ocr_loop_file:
  "file_content (Some c) (snd (ocr_loop w T i fs)) =
     Some (c @ concat (map (block_of w) (take (pages_started w i fs) (enumerate (Suc i) fs))))"
proof -
  have "file_content (Some c) (snd (ocr_loop w T i fs)) =
     Some (c @ concat (map (\<lambda>jf. block_of w (Suc (fst jf), snd jf))
       (take (pages_started w i fs) (enumerate i fs))))"
    by (simp add: ocr_loop_events split_def file_content_pages)
  also have "\<dots> = Some (c @ concat (map (block_of w)
       (map (\<lambda>jf. (Suc (fst jf), snd jf)) (take (pages_started w i fs) (enumerate i fs)))))"
    by (simp add: comp_def)
  finally show ?thesis by (simp only: take_map [symmetric] map_Suc_enumerate)
qed

lemma work_area_pages:
  "work_area_exists b (concat (map (\<lambda>jf. snd (ocr_page w T (fst jf) (snd jf))) xs)) = b"
  by (induction xs) (simp_all add: work_area_exists_append ocr_page_work_area)

lemma ocr_loop_work_area: "work_area_exists b (snd (ocr_loop w T i fs)) = b"
  by (simp add: ocr_loop_events split_def work_area_pages)

lemma numbered_enumerate: "numbered fs = enumerate (Suc 0) fs"
  by (simp add: numbered_def)

subsection \<open>The phases of the method\<close>

text \<open>Rasterisation.\<close>

lemma rasterise_flow:
  "fst (rasterise w) = Normal \<longleftrightarrow>
     rasterised w \<and> \<not> cancelled w After_pdftoppm \<and> image_files w \<noteq> []"
  by (simp add: rasterise_def rasterised_def Let_def split: sum.splits)

lemma rasterise_runs: "runs (snd (rasterise w)) = [pdftoppm_cmd w]"
  by (simp add: rasterise_def Let_def read_simps split: sum.splits)

lemma rasterise_progress: "progress_values (snd (rasterise w)) = [10]"
  by (simp add: rasterise_def Let_def read_simps split: sum.splits)

lemma rasterise_file: "file_content c (snd (rasterise w)) = c"
  by (simp add: rasterise_def Let_def split: sum.splits)

lemma rasterise_work_area: "work_area_exists b (snd (rasterise w)) = True"
  by (simp add: rasterise_def Let_def split: sum.splits)

lemma rasterise_logs:
  "logs (snd (rasterise w)) =
     (INFO, ''Starting OCR processing...'') #
     (if fst (rasterise w) = Normal
      then [(SUCCESS, ''Generated '' @ str_nat (length (image_files w)) @ '' images from PDF'')]
      else [])"
  by (simp add: rasterise_def Let_def read_simps split: sum.splits)

text \<open>Recognition.\<close>

lemma recognise_flow:
  "fst (recognise w) = Normal \<longleftrightarrow>
     open_w w = None \<and> pages_run w = length (image_files w) \<and>
     (\<forall>f \<in> set (image_files w). launched w f)"
  by (simp add: recognise_def fst_seq ocr_loop_flow pages_run_def split: option.splits)

lemma recognise_runs:
  "runs (snd (recognise w)) =
     (if open_w w = None then map (tesseract_cmd w) (take (pages_run w) (image_files w))
      else [])"
  by (simp add: recognise_def snd_seq read_simps ocr_loop_runs pages_run_def
      split: option.splits)

lemma recognise_progress:
  "progress_values (snd (recognise w)) =
     (if open_w w = None
      then map (\<lambda>j. float_add 20 (int_truediv (70 * int j) (int (length (image_files w)))))
             [0..<pages_run w]
      else [])"
  by (simp add: recognise_def snd_seq read_simps ocr_loop_progress pages_run_def
      split: option.splits)

lemma recognise_logs:
  "logs (snd (recognise w)) =
     (if open_w w = None
      then concat (map (\<lambda>nf. if launched w (snd nf) then [page_log w nf] else [])
             (take (pages_run w) (numbered (image_files w))))
      else [])"
  by (simp add: recognise_def snd_seq read_simps ocr_loop_logs pages_run_def
      numbered_enumerate split: option.splits)

lemma recognise_file:
  "file_content c (snd (recognise w)) =
     (if open_w w = None
      then Some (concat (map (block_of w) (take (pages_run w) (numbered (image_files w)))))
      else c)"
  by (simp add: recognise_def snd_seq ocr_loop_file pages_run_def numbered_enumerate
      split: option.splits)

lemma recognise_work_area: "work_area_exists b (snd (recognise w)) = b"
  by (simp add: recognise_def snd_seq ocr_loop_work_area split: option.splits)

text \<open>Cleanup and completion.\<close>

lemma cleanup_flow:
  "fst (cleanup_and_complete w) = (if cleanup_images w then (case rmtree w of Some e \<Rightarrow> Raise e | None \<Rightarrow> Normal) else Normal)"
  by (simp add: cleanup_and_complete_def Let_def split: option.splits)

lemma cleanup_runs: "runs (snd (cleanup_and_complete w)) = []"
  by (simp add: cleanup_and_complete_def Let_def read_simps split: option.splits)

lemma cleanup_progress:
  "progress_values (snd (cleanup_and_complete w)) =
     (if cleanup_images w then (if rmtree w = None then [95, 100] else [95]) else [100])"
  by (simp add: cleanup_and_complete_def Let_def read_simps split: option.splits)

lemma cleanup_file: "file_content c (snd (cleanup_and_complete w)) = c"
  by (simp add: cleanup_and_complete_def Let_def split: option.splits)

lemma cleanup_work_area:
  "work_area_exists b (snd (cleanup_and_complete w)) =
     (if cleanup_images w \<and> rmtree w = None then False else b)"
  by (simp add: cleanup_and_complete_def Let_def split: option.splits)

lemma cleanup_logs:
  "logs (snd (cleanup_and_complete w)) =
     (if cleanup_images w \<and> rmtree w \<noteq> None then []
      else (if cleanup_images w then [(INFO, ''Temporary files cleaned up'')] else []) @
           [(SUCCESS, ''OCR processing completed successfully!''),
            (SUCCESS, ''Output saved to: '' @ output_path w)])"
  by (simp add: cleanup_and_complete_def Let_def read_simps split: option.splits)

text \<open>The method.\<close>

lemma body_flow_Normal:
  "fst (process_body w) = Normal \<longleftrightarrow>
     enters_loop w \<and> pages_run w = length (image_files w) \<and>
     (\<forall>f \<in> set (image_files w). launched w f) \<and> (cleanup_images w \<longrightarrow> rmtree w = None)"
  by (auto simp: process_body_def fst_seq rasterise_flow recognise_flow cleanup_flow
      enters_loop_def split: option.splits)

lemma job_outcome_flow:
  "job_outcome w =
     (case fst (process_body w) of Normal \<Rightarrow> Completed | Return \<Rightarrow> Cancelled
      | Raise e \<Rightarrow> FatalError)"
  by (cases "process_body w"; cases "fst (process_body w)")
     (simp_all add: job_outcome_def process_pdf_def)

lemma trace_body:
  "trace w = snd (process_body w) @
     (case fst (process_body w) of Raise e \<Rightarrow> handler e | _ \<Rightarrow> []) @ [Schedule_reset_ui]"
  by (cases "process_body w"; cases "fst (process_body w)")
     (simp_all add: trace_def process_pdf_def)

lemma handler_reads:
  "runs (handler e) = []" "progress_values (handler e) = []"
  "logs (handler e) = [(ERROR, ''Error: '' @ e)]"
  "file_content c (handler e) = c" "work_area_exists b (handler e) = b"
  by (simp_all add: handler_def read_simps)

lemma trace_runs: "runs (trace w) = runs (snd (process_body w))"
  by (cases "fst (process_body w)") (simp_all add: trace_body read_simps handler_reads)

lemma trace_progress: "progress_values (trace w) = progress_values (snd (process_body w))"
  by (cases "fst (process_body w)") (simp_all add: trace_body read_simps handler_reads)

lemma trace_file: "file_content c (trace w) = file_content c (snd (process_body w))"
  by (cases "fst (process_body w)")
     (simp_all add: trace_body file_content_append handler_reads)

lemma trace_work_area: "work_area_exists b (trace w) = work_area_exists b (snd (process_body w))"
  by (cases "fst (process_body w)")
     (simp_all add: trace_body work_area_exists_append handler_reads)

lemma trace_logs:
  "logs (trace w) = logs (snd (process_body w)) @
     (case fst (process_body w) of Raise e \<Rightarrow> [(ERROR, ''Error: '' @ e)] | _ \<Rightarrow> [])"
  by (cases "fst (process_body w)") (simp_all add: trace_body read_simps handler_reads)

lemma job_runs:
  "runs (trace w) =
     pdftoppm_cmd w #
     (if enters_loop w then map (tesseract_cmd w) (take (pages_run w) (image_files w)) else [])"
  by (simp add: trace_runs runs_append process_body_def snd_seq fst_seq
      rasterise_runs recognise_runs cleanup_runs rasterise_flow enters_loop_def)

lemma job_file:
  "file_content old (trace w) =
     (if enters_loop w
      then Some (concat (map (block_of w) (take (pages_run w) (numbered (image_files w)))))
      else old)"
  by (simp add: trace_file file_content_append process_body_def snd_seq fst_seq
      rasterise_file recognise_file cleanup_file rasterise_flow enters_loop_def)

lemma job_work_area:
  "work_area_exists b (trace w) =
     (\<not> (fst (process_body w) = Normal \<and> cleanup_images w))"
  by (auto simp add: trace_work_area work_area_exists_append process_body_def snd_seq fst_seq
      rasterise_work_area recognise_work_area cleanup_work_area cleanup_flow split: option.splits)

lemma job_progress:
  "progress_values (trace w) =
     10 # (if enters_loop w
           then map (\<lambda>j. float_add 20 (int_truediv (70 * int j) (int (length (image_files w)))))
             [0..<pages_run w] @
                (if fst (recognise w) = Normal then progress_values (snd (cleanup_and_complete w)) else [])
           else [])"
  by (simp add: trace_progress progress_values_append process_body_def snd_seq fst_seq
      rasterise_progress recognise_progress rasterise_flow enters_loop_def recognise_flow)

subsection \<open>Facts used by several claims\<close>

lemma never_cancelled_all:
  "never_cancelled_in_loop w \<Longrightarrow> (\<forall>f \<in> set (image_files w). launched w f) \<Longrightarrow>
   pages_run w = length (image_files w)"
  unfolding pages_run_def never_cancelled_in_loop_def
  by (rule pages_started_all) simp_all

lemma recognised_launched: "recognised w f \<Longrightarrow> launched w f"
  by (simp add: recognised_def launched_def split: sum.splits)

lemma concat_map_filter:
  "concat (map (\<lambda>x. if P x then h x else []) xs) = concat (map h (filter P xs))"
  by (induction xs) simp_all

lemma length_numbered: "length (numbered fs) = length fs"
  by (simp add: numbered_def)

lemma in_numbered:
  "nf \<in> set (numbered fs) \<longleftrightarrow>
     1 \<le> fst nf \<and> fst nf \<le> length fs \<and> snd nf = fs ! (fst nf - 1)"
  by (auto simp: numbered_def in_set_enumerate_eq)

lemma in_numbered_file: "nf \<in> set (numbered fs) \<Longrightarrow> snd nf \<in> set fs"
  by (auto simp: in_numbered)

lemma body_logs:
  "logs (snd (process_body w)) =
     logs (snd (rasterise w)) @
     (if fst (rasterise w) = Normal
      then logs (snd (recognise w)) @
           (if fst (recognise w) = Normal then logs (snd (cleanup_and_complete w)) else [])
      else [])"
  by (simp add: process_body_def snd_seq fst_seq logs_append)

lemma job_logs:
  assumes "enters_loop w"
  shows "logs (trace w) =
     [(INFO, ''Starting OCR processing...''),
      (SUCCESS, ''Generated '' @ str_nat (length (image_files w)) @ '' images from PDF'')] @
     concat (map (\<lambda>nf. if launched w (snd nf) then [page_log w nf] else [])
       (take (pages_run w) (numbered (image_files w)))) @
     (if fst (recognise w) = Normal then logs (snd (cleanup_and_complete w)) else []) @
     (case fst (process_body w) of Raise e \<Rightarrow> [(ERROR, ''Error: '' @ e)] | _ \<Rightarrow> [])"
proof -
  from assms have "fst (rasterise w) = Normal" "open_w w = None"
    by (simp_all add: enters_loop_def rasterise_flow)
  then show ?thesis
    by (simp add: trace_logs body_logs rasterise_logs recognise_logs)
qed

lemma map_fst_numbered: "map fst (numbered fs) = [1..<Suc (length fs)]"
  by (simp add: numbered_def enumerate_eq_zip del: upt_Suc)

lemma length_filter_numbered:
  assumes "1 \<le> k" "k \<le> length fs"
  shows "length (filter (\<lambda>nf. fst nf \<noteq> k) (numbered fs)) = length fs - 1"
proof -
  have "length (filter (\<lambda>nf. fst nf \<noteq> k) (numbered fs)) =
        length (filter (\<lambda>n. n \<noteq> k) (map fst (numbered fs)))"
    by (simp add: filter_map comp_def)
  also have "\<dots> = length (removeAll k [1..<Suc (length fs)])"
    by (simp only: map_fst_numbered removeAll_filter_not_eq) (metis)
  also have "\<dots> = length (remove1 k [1..<Suc (length fs)])"
    by (simp only: distinct_remove1_removeAll [OF distinct_upt])
  also have "\<dots> = length fs - 1"
    using assms by (simp add: length_remove1 del: upt_Suc)
  finally show ?thesis .
qed

lemma pages_started_stop:
  "j < length fs \<Longrightarrow> cancelled w (Page_start (i + j)) \<Longrightarrow>
   (\<forall>j' < j. \<not> cancelled w (Page_start (i + j'))) \<Longrightarrow>
   (\<forall>f \<in> set (take j fs). launched w f) \<Longrightarrow>
   pages_started w i fs = j \<and> fst (ocr_loop w T i fs) = Return"
proof (induction fs arbitrary: i j)
  case Nil
  then show ?case by simp
next
  case (Cons f fs)
  show ?case
  proof (cases j)
    case 0
    with Cons.prems show ?thesis by simp
  next
    case (Suc j')
    with Cons.prems have nc: "\<not> cancelled w (Page_start i)" and l: "launched w f"
      by force+
    have "pages_started w (Suc i) fs = j' \<and> fst (ocr_loop w T (Suc i) fs) = Return"
    proof (rule Cons.IH)
      show "j' < length fs" using Cons.prems(1) Suc by simp
      show "cancelled w (Page_start (Suc i + j'))" using Cons.prems(2) Suc by simp
      show "\<forall>j''<j'. \<not> cancelled w (Page_start (Suc i + j''))"
      proof (intro allI impI)
        fix j'' assume "j'' < j'"
        then have "Suc j'' < j" using Suc by simp
        with Cons.prems(3) have "\<not> cancelled w (Page_start (i + Suc j''))" by blast
        then show "\<not> cancelled w (Page_start (Suc i + j''))" by simp
      qed
      show "\<forall>f \<in> set (take j' fs). launched w f" using Cons.prems(4) Suc by simp
    qed
    with nc l Suc show ?thesis by (simp add: fst_seq ocr_page_Normal)
  qed
qed

lemma body_flow_Return:
  assumes "enters_loop w"
    and "fst (ocr_loop w (length (image_files w)) 0 (image_files w)) = Return"
  shows "job_outcome w = Cancelled"
proof -
  from assms(1) have "fst (rasterise w) = Normal" "open_w w = None"
    by (simp_all add: enters_loop_def rasterise_flow)
  with assms(2) have "fst (process_body w) = Return"
    by (simp add: process_body_def fst_seq recognise_def)
  then show ?thesis by (simp add: job_outcome_flow)
qed

lemma page_value_code:
  "float_add 20 (int_truediv (70 * int j) (int N)) = page_value N (Suc j)"
  by (simp add: page_value_def)

lemma map_page_value:
  "map (\<lambda>j. float_add 20 (int_truediv (70 * int j) (int N))) [0..<m] =
   map (page_value N) [1..<Suc m]"
proof -
  have "map (page_value N) [1..<Suc m] = map (page_value N) (map Suc [0..<m])"
    by (simp only: map_Suc_upt One_nat_def)
  then show ?thesis by (simp add: page_value_code comp_def)
qed

lemma page_quotient:
  assumes "1 \<le> i"
  shows "(of_int (70 * (int i - 1)) :: rat) / of_int (int N) = 70 * (of_nat i - 1) / of_nat N"
  using assms by simp

lemma page_quotient_bounds:
  assumes "1 \<le> i" and "i \<le> N"
  shows "(0::rat) \<le> 70 * (of_nat i - 1) / of_nat N \<and> (70 * (of_nat i - 1) / of_nat N :: rat) \<le> 70"
proof -
  from assms have N: "(0::rat) < of_nat N" by simp
  from assms have "(1::rat) \<le> of_nat i" "(of_nat i :: rat) \<le> of_nat N" by simp_all
  with N show ?thesis by (simp add: divide_le_eq)
qed

lemma page_value_bounds:
  assumes "1 \<le> i" and "i \<le> N"
  shows "20 \<le> page_value N i \<and> page_value N i \<le> 90"
proof -
  let ?q = "70 * (of_nat i - 1) / of_nat N :: rat"
  from page_quotient_bounds [OF assms] have q: "0 \<le> ?q" "?q \<le> 70" by simp_all
  from double_round_mono [of 0 ?q] double_round_mono [of ?q 70] q
  have r: "0 \<le> double_round ?q" "double_round ?q \<le> 70"
    by (simp_all add: double_round_exact)
  from double_round_mono [of 20 "20 + double_round ?q"]
       double_round_mono [of "20 + double_round ?q" 90] r
  have "20 \<le> double_round (20 + double_round ?q)" "double_round (20 + double_round ?q) \<le> 90"
    by (simp_all add: double_round_exact)
  then show ?thesis
    by (simp add: page_value_def float_add_def int_truediv_def page_quotient [OF assms(1)])
qed

lemma page_value_mono:
  assumes "1 \<le> i" and "i \<le> j"
  shows "page_value N i \<le> page_value N j"
proof -
  let ?q = "\<lambda>i. 70 * (of_nat i - 1) / of_nat N :: rat"
  from assms have j: "1 \<le> j" by simp
  from assms have "(1::rat) \<le> of_nat i" "(of_nat i :: rat) \<le> of_nat j" by simp_all
  then have q: "0 \<le> ?q i" "?q i \<le> ?q j" by (simp_all add: divide_right_mono)
  then have r: "double_round (?q i) \<le> double_round (?q j)" by (rule double_round_mono)
  from q(1) have "double_round 0 \<le> double_round (?q i)" by (intro double_round_mono) simp_all
  then have "0 \<le> 20 + double_round (?q i)" by (simp add: double_round_exact)
  moreover from r have "20 + double_round (?q i) \<le> 20 + double_round (?q j)" by simp
  ultimately have "double_round (20 + double_round (?q i)) \<le> double_round (20 + double_round (?q j))"
    by (rule double_round_mono)
  then show ?thesis
    by (simp add: page_value_def float_add_def int_truediv_def page_quotient [OF assms(1)]
        page_quotient [OF j])
qed

lemma sorted_page_value: "sorted (map (page_value N) [1..<Suc m])"
proof -
  have "sorted_wrt (\<le>) [1..<Suc m]" by (simp del: upt_Suc)
  then have "sorted_wrt (\<lambda>i j. page_value N i \<le> page_value N j) [1..<Suc m]"
    by (rule sorted_wrt_mono_rel [rotated]) (simp add: page_value_mono del: upt_Suc)
  then show ?thesis by (simp only: sorted_map)
qed

lemma page_value_error:
  assumes "1 \<le> i" and "i \<le> N"
  shows "\<bar>page_value N i - page_progress N i\<bar> \<le> 1 / 2 ^ 46"
proof -
  let ?q = "70 * (of_nat i - 1) / of_nat N :: rat"
  from page_quotient_bounds [OF assms] have q: "0 \<le> ?q" "?q \<le> 70" by simp_all
  from double_round_mono [of 0 ?q] double_round_mono [of ?q 70] q
  have r: "0 \<le> double_round ?q" "double_round ?q \<le> 70"
    by (simp_all add: double_round_exact)
  from q have e1: "\<bar>double_round ?q - ?q\<bar> \<le> 1 / 2 ^ 47"
    by (intro double_round_error_small) simp_all
  from r have e2: "\<bar>double_round (20 + double_round ?q) - (20 + double_round ?q)\<bar> \<le> 1 / 2 ^ 47"
    by (intro double_round_error_small) simp_all
  have "page_value N i - page_progress N i =
        (double_round (20 + double_round ?q) - (20 + double_round ?q)) + (double_round ?q - ?q)"
    by (simp add: page_value_def page_progress_def float_add_def int_truediv_def
        page_quotient [OF assms(1)])
  then have "\<bar>page_value N i - page_progress N i\<bar> \<le>
        \<bar>double_round (20 + double_round ?q) - (20 + double_round ?q)\<bar> + \<bar>double_round ?q - ?q\<bar>"
    by (simp only: abs_triangle_ineq)
  also have "\<dots> \<le> 1 / 2 ^ 47 + 1 / 2 ^ 47" using e1 e2 by (rule add_mono [rotated])
  also have "\<dots> = (1::rat) / 2 ^ 46" by simp
  finally show ?thesis .
qed

lemma cancelled_keeps_work_area:
  "job_outcome w = Cancelled \<Longrightarrow> work_area_exists b (trace w)"
  by (cases "fst (process_body w)") (simp_all add: job_work_area job_outcome_flow)

lemma completed_work_area:
  "job_outcome w = Completed \<Longrightarrow> work_area_exists b (trace w) \<longleftrightarrow> \<not> cleanup_images w"
  by (cases "fst (process_body w)") (simp_all add: job_work_area job_outcome_flow)

lemma loop_completes_run_all:
  "loop_completes w \<Longrightarrow> pages_run w = length (image_files w)"
  by (simp add: loop_completes_def never_cancelled_all)

lemma loop_completes_recognise:
  "loop_completes w \<Longrightarrow> fst (rasterise w) = Normal \<and> fst (recognise w) = Normal"
  by (simp add: loop_completes_def enters_loop_def rasterise_flow recognise_flow
      never_cancelled_all)

lemma page_logs_all_launched:
  assumes "\<forall>f \<in> set fs. launched w f"
  shows "concat (map (\<lambda>nf. if launched w (snd nf) then [page_log w nf] else []) (numbered fs)) =
         map (page_log w) (numbered fs)"
proof -
  have "map (\<lambda>nf. if launched w (snd nf) then [page_log w nf] else []) (numbered fs) =
        map (\<lambda>nf. [page_log w nf]) (numbered fs)"
    using assms by (intro map_cong [OF refl]) (simp add: in_numbered_file)
  then show ?thesis by (simp only: concat_map_single)
qed

lemma page_log_level: "fst (page_log w nf) = INFO \<or> fst (page_log w nf) = WARNING"
  by (simp add: page_log_def)

lemma body_events_loop:
  assumes "enters_loop w"
  shows "\<exists>post. snd (process_body w) = snd (rasterise w) @ Open_w (output_path w) # post"
proof -
  from assms have "fst (rasterise w) = Normal" "open_w w = None"
    by (simp_all add: enters_loop_def rasterise_flow)
  then show ?thesis
    by (simp add: process_body_def snd_seq fst_seq recognise_def)
qed

lemma no_block_if_none_recognised:
  assumes "\<forall>f \<in> set fs. \<not> recognised w f"
  shows "concat (map (block_of w) (take m (numbered fs))) = []"
proof -
  have "block_of w nf = []" if "nf \<in> set (take m (numbered fs))" for nf
  proof -
    from that have "nf \<in> set (numbered fs)" by (rule in_set_takeD)
    then have "snd nf \<in> set fs" by (rule in_numbered_file)
    with assms show ?thesis by (simp add: block_of_def)
  qed
  then show ?thesis by simp
qed

lemma image_files_set: "set (image_files w) = {f \<in> set (listdir w). endswith f ''.png''}"
  by (auto simp: image_files_def)

lemma image_files_sorted: "sorted (image_files w)"
  by (simp add: image_files_def)

lemma image_files_listing_order:
  assumes "distinct (listdir w)" and "distinct (listdir w')"
    and "set (listdir w') = set (listdir w)"
  shows "image_files w' = image_files w"
proof (rule sorted_distinct_set_unique)
  show "sorted (image_files w')" "sorted (image_files w)" by (rule image_files_sorted)+
  show "distinct (image_files w')" using assms(2) by (simp add: image_files_def)
  show "distinct (image_files w)" using assms(1) by (simp add: image_files_def)
  show "set (image_files w') = set (image_files w)" using assms(3) by (simp add: image_files_set)
qed

section \<open>The claims\<close>

text \<open>
  Claim C1. In a job where the rasteriser yields \<open>N \<ge> 1\<close> page images and the OCR tool
  is run on every page and exits with status zero each time (so the flag is not found set
  at any check and the output file opens), the output file consists, for the pages
  \<open>1, ..., N\<close> in this order, of the block of the page, two newlines, the line
  \<^verbatim>\<open>--- Page i ---\<close> and a newline, followed by the captured standard output of the
  page as it is, and of nothing else, whatever the file held before.
\<close>

theorem all_pages_recognised:
  assumes "enters_loop w" and "never_cancelled_in_loop w"
    and "\<forall>f \<in> set (image_files w). recognised w f"
  shows "file_content old (trace w) =
           Some (concat (map (\<lambda>(n, f). page_block n (ocr_stdout w f))
                   (numbered (image_files w))))"
proof -
  from assms(3) have "\<forall>f \<in> set (image_files w). launched w f"
    by (simp add: recognised_launched)
  with assms(2) have run_all: "pages_run w = length (image_files w)"
    by (rule never_cancelled_all)
  have eq: "map (block_of w) (numbered (image_files w)) =
        map (\<lambda>(n, f). page_block n (ocr_stdout w f)) (numbered (image_files w))"
  proof (rule map_cong [OF refl])
    fix nf assume "nf \<in> set (numbered (image_files w))"
    then have "snd nf \<in> set (image_files w)"
      by (rule in_numbered_file)
    with assms(3) show "block_of w nf = (case nf of (n, f) \<Rightarrow> page_block n (ocr_stdout w f))"
      by (simp add: block_of_def split_def)
  qed
  from assms(1) run_all
  have "file_content old (trace w) =
          Some (concat (map (block_of w) (numbered (image_files w))))"
    by (simp add: job_file length_numbered [symmetric])
  then show ?thesis by (simp only: eq)
qed

theorem all_pages_recognised_witness:
  "enters_loop two_pages \<and> never_cancelled_in_loop two_pages \<and>
   list_all (recognised two_pages) (image_files two_pages) \<and>
   file_content (Some ''stale'') (trace two_pages) =
     Some ''\<newline>\<newline>--- Page 1 ---\<newline>Hello\<newline>\<newline>--- Page 2 ---\<newline>World''"
proof -
  have h1: "enters_loop two_pages" by code_simp
  have h2: "never_cancelled_in_loop two_pages" by code_simp
  have h3: "\<forall>f \<in> set (image_files two_pages). recognised two_pages f" by code_simp
  have v: "concat (map (\<lambda>(n, f). page_block n (ocr_stdout two_pages f))
             (numbered (image_files two_pages))) =
           ''\<newline>\<newline>--- Page 1 ---\<newline>Hello\<newline>\<newline>--- Page 2 ---\<newline>World''"
    by code_simp
  from all_pages_recognised [OF h1 h2 h3, of "Some ''stale''"] v h1 h2 h3
  show ?thesis by (simp add: list_all_iff)
qed

text \<open>
  Claim C2 says that a job in which the OCR tool fails on one page only runs to
  completion. After the loop the removal of the temporary directory can still raise, and
  its exception ends the job in error (claim C6). In this job page 2 of 3 fails, every
  other page is recognised and the removal raises: the job ends in error, and neither the
  value 100 nor the final success line is emitted.
\<close>

theorem one_page_fails_counterexample:
  "enters_loop second_fails_rmtree_raises \<and>
   never_cancelled_in_loop second_fails_rmtree_raises \<and>
   only_page_fails second_fails_rmtree_raises 2 \<and>
   job_outcome second_fails_rmtree_raises = FatalError \<and>
   100 \<notin> set (progress_values (trace second_fails_rmtree_raises)) \<and>
   (SUCCESS, ''OCR processing completed successfully!'')
     \<notin> set (logs (trace second_fails_rmtree_raises))"
  by code_simp

text \<open>
  Claim C2 as amended. In a job with \<open>N\<close> pages where the OCR tool exits with a non-zero
  status on page \<open>k\<close> only (\<open>1 \<le> k \<le> N\<close>) and with status zero on every other page, the
  failure does not end the loop: the tool is run on all \<open>N\<close> pages, the output file holds
  the \<open>N - 1\<close> blocks of the other pages in page order and nothing for page \<open>k\<close>, and a
  \<^verbatim>\<open>WARNING\<close> line naming page \<open>k\<close> is logged. The job then runs to completion, with the
  value 100 as its last progress value and the two final success lines as its last log
  lines, when the removal of the temporary directory does not raise (the cleanup option is
  off, or the removal succeeds); when it raises, the job ends in error.
\<close>

theorem one_page_fails:
  assumes "enters_loop w" and "never_cancelled_in_loop w" and "only_page_fails w k"
  shows "runs (trace w) = pdftoppm_cmd w # map (tesseract_cmd w) (image_files w) \<and>
         file_content old (trace w) =
           Some (concat (map (\<lambda>(n, f). page_block n (ocr_stdout w f))
                   (filter (\<lambda>(n, f). n \<noteq> k) (numbered (image_files w))))) \<and>
         length (filter (\<lambda>(n, f). n \<noteq> k) (numbered (image_files w))) =
           length (image_files w) - 1 \<and>
         (WARNING, ''OCR failed for page '' @ str_nat k @ '': ''
                    @ ocr_stderr w (image_files w ! (k - 1))) \<in> set (logs (trace w)) \<and>
         ((cleanup_images w \<longrightarrow> rmtree w = None) \<longrightarrow>
            job_outcome w = Completed \<and>
            last (progress_values (trace w)) = 100 \<and>
            (SUCCESS, ''OCR processing completed successfully!'') \<in> set (logs (trace w)) \<and>
            last (logs (trace w)) = (SUCCESS, ''Output saved to: '' @ output_path w)) \<and>
         (cleanup_images w \<and> rmtree w \<noteq> None \<longrightarrow> job_outcome w = FatalError)"
proof -
  let ?fs = "image_files w"
  from assms(3) have k: "1 \<le> k" "k \<le> length ?fs"
    and pages: "\<And>nf. nf \<in> set (numbered ?fs) \<Longrightarrow>
                  launched w (snd nf) \<and> (recognised w (snd nf) \<longleftrightarrow> fst nf \<noteq> k)"
    by (simp_all add: only_page_fails_def)
  have launched_all: "\<forall>f \<in> set ?fs. launched w f"
  proof
    fix f assume "f \<in> set ?fs"
    then obtain i where "i < length ?fs" "f = ?fs ! i" by (auto simp: in_set_conv_nth)
    then have "(Suc i, f) \<in> set (numbered ?fs)" by (simp add: in_numbered)
    from pages [OF this] show "launched w f" by simp
  qed
  with assms(2) have run_all: "pages_run w = length ?fs"
    by (rule never_cancelled_all)
  have c1: "runs (trace w) = pdftoppm_cmd w # map (tesseract_cmd w) ?fs"
    using assms(1) run_all by (simp add: job_runs)
  have "map (block_of w) (numbered ?fs) =
        map (\<lambda>nf. if fst nf \<noteq> k then page_block (fst nf) (ocr_stdout w (snd nf)) else [])
          (numbered ?fs)"
    by (rule map_cong [OF refl]) (simp add: block_of_def pages)
  then have "concat (map (block_of w) (numbered ?fs)) =
        concat (map (\<lambda>nf. page_block (fst nf) (ocr_stdout w (snd nf)))
          (filter (\<lambda>nf. fst nf \<noteq> k) (numbered ?fs)))"
    by (simp only: concat_map_filter)
  moreover from assms(1) run_all
  have "file_content old (trace w) = Some (concat (map (block_of w) (numbered ?fs)))"
    by (simp add: job_file length_numbered [symmetric])
  ultimately have c2: "file_content old (trace w) =
           Some (concat (map (\<lambda>(n, f). page_block n (ocr_stdout w f))
                   (filter (\<lambda>(n, f). n \<noteq> k) (numbered ?fs))))"
    by (simp add: split_def)
  have c3: "length (filter (\<lambda>(n, f). n \<noteq> k) (numbered ?fs)) = length ?fs - 1"
    using length_filter_numbered [OF k] by (simp add: split_def)
  have kin: "(k, ?fs ! (k - 1)) \<in> set (numbered ?fs)"
    using k by (simp add: in_numbered)
  from pages [OF kin]
  have "page_log w (k, ?fs ! (k - 1)) =
          (WARNING, ''OCR failed for page '' @ str_nat k @ '': '' @ ocr_stderr w (?fs ! (k - 1)))"
    and "launched w (?fs ! (k - 1))"
    by (simp_all add: page_log_def)
  with kin have c4: "(WARNING, ''OCR failed for page '' @ str_nat k @ '': ''
                    @ ocr_stderr w (?fs ! (k - 1))) \<in> set (logs (trace w))"
    using run_all by (force simp: job_logs [OF assms(1)] length_numbered [symmetric])
  from assms(1) run_all launched_all
  have phases: "fst (rasterise w) = Normal" "fst (recognise w) = Normal"
    by (simp_all add: enters_loop_def rasterise_flow recognise_flow)
  have c5: "(cleanup_images w \<longrightarrow> rmtree w = None) \<longrightarrow>
            job_outcome w = Completed \<and>
            last (progress_values (trace w)) = 100 \<and>
            (SUCCESS, ''OCR processing completed successfully!'') \<in> set (logs (trace w)) \<and>
            last (logs (trace w)) = (SUCCESS, ''Output saved to: '' @ output_path w)"
  proof
    assume ok: "cleanup_images w \<longrightarrow> rmtree w = None"
    with assms(1) run_all launched_all have flow: "fst (process_body w) = Normal"
      by (simp add: body_flow_Normal)
    then have "job_outcome w = Completed" by (simp add: job_outcome_flow)
    moreover from ok have "last (progress_values (trace w)) = 100"
      using assms(1) phases by (auto simp: job_progress cleanup_progress)
    moreover from ok have "logs (trace w) =
        ([(INFO, ''Starting OCR processing...''),
          (SUCCESS, ''Generated '' @ str_nat (length ?fs) @ '' images from PDF'')] @
         concat (map (\<lambda>nf. if launched w (snd nf) then [page_log w nf] else [])
           (take (pages_run w) (numbered ?fs))) @
         (if cleanup_images w then [(INFO, ''Temporary files cleaned up'')] else [])) @
        [(SUCCESS, ''OCR processing completed successfully!''),
         (SUCCESS, ''Output saved to: '' @ output_path w)]"
      using phases flow by (auto simp: job_logs [OF assms(1)] cleanup_logs)
    then have "(SUCCESS, ''OCR processing completed successfully!'') \<in> set (logs (trace w))"
      and "last (logs (trace w)) = (SUCCESS, ''Output saved to: '' @ output_path w)"
      by (simp_all del: append_assoc)
    ultimately show "job_outcome w = Completed \<and>
            last (progress_values (trace w)) = 100 \<and>
            (SUCCESS, ''OCR processing completed successfully!'') \<in> set (logs (trace w)) \<and>
            last (logs (trace w)) = (SUCCESS, ''Output saved to: '' @ output_path w)"
      by blast
  qed
  have c6: "cleanup_images w \<and> rmtree w \<noteq> None \<longrightarrow> job_outcome w = FatalError"
  proof
    assume "cleanup_images w \<and> rmtree w \<noteq> None"
    then obtain e where "cleanup_images w" "rmtree w = Some e" by auto
    with phases have "fst (process_body w) = Raise e"
      by (simp add: process_body_def fst_seq cleanup_flow)
    then show "job_outcome w = FatalError" by (simp add: job_outcome_flow)
  qed
  from c1 c2 c3 c4 c5 c6 show ?thesis by blast
qed

theorem one_page_fails_witness:
  "enters_loop second_fails \<and> never_cancelled_in_loop second_fails \<and>
   only_page_fails second_fails 2 \<and>
   runs (trace second_fails) =
     [[''pdftoppm'', ''doc.pdf'', ''/tmp/ocr_a/page'', ''-png''],
      [''tesseract'', ''/tmp/ocr_a/page-1.png'', ''stdout'', ''-l'', ''eng''],
      [''tesseract'', ''/tmp/ocr_a/page-2.png'', ''stdout'', ''-l'', ''eng''],
      [''tesseract'', ''/tmp/ocr_a/page-3.png'', ''stdout'', ''-l'', ''eng'']] \<and>
   file_content None (trace second_fails) =
     Some ''\<newline>\<newline>--- Page 1 ---\<newline>Hello\<newline>\<newline>--- Page 3 ---\<newline>World'' \<and>
   (WARNING, ''OCR failed for page 2: bad image'') \<in> set (logs (trace second_fails)) \<and>
   rmtree second_fails = None \<and>
   job_outcome second_fails = Completed \<and>
   last (progress_values (trace second_fails)) = 100 \<and>
   (SUCCESS, ''OCR processing completed successfully!'') \<in> set (logs (trace second_fails)) \<and>
   last (logs (trace second_fails)) = (SUCCESS, ''Output saved to: out.txt'')"
proof -
  have h1: "enters_loop second_fails" by code_simp
  have h2: "never_cancelled_in_loop second_fails" by code_simp
  have h3: "only_page_fails second_fails 2" by code_simp
  have v1: "pdftoppm_cmd second_fails # map (tesseract_cmd second_fails) (image_files second_fails) =
     [[''pdftoppm'', ''doc.pdf'', ''/tmp/ocr_a/page'', ''-png''],
      [''tesseract'', ''/tmp/ocr_a/page-1.png'', ''stdout'', ''-l'', ''eng''],
      [''tesseract'', ''/tmp/ocr_a/page-2.png'', ''stdout'', ''-l'', ''eng''],
      [''tesseract'', ''/tmp/ocr_a/page-3.png'', ''stdout'', ''-l'', ''eng'']]"
    by code_simp
  have v2: "concat (map (\<lambda>(n, f). page_block n (ocr_stdout second_fails f))
              (filter (\<lambda>(n, f). n \<noteq> 2) (numbered (image_files second_fails)))) =
            ''\<newline>\<newline>--- Page 1 ---\<newline>Hello\<newline>\<newline>--- Page 3 ---\<newline>World''"
    by code_simp
  have v3: "''OCR failed for page '' @ str_nat 2 @ '': ''
              @ ocr_stderr second_fails (image_files second_fails ! (2 - 1)) =
            ''OCR failed for page 2: bad image''"
    by code_simp
  have v4: "rmtree second_fails = None" by code_simp
  have v5: "''Output saved to: '' @ output_path second_fails = ''Output saved to: out.txt''"
    by code_simp
  from one_page_fails [OF h1 h2 h3, of None] v1 v2 v3 v4 v5 h1 h2 h3
  show ?thesis by simp
qed

text \<open>
  Claim C3. If the cancellation flag is set when the check at the top of the iteration of
  page \<open>k\<close> reads it, then the OCR tool is run on the first \<open>m\<close> pages only, for some
  \<open>m < k\<close>: never on page \<open>k\<close> or on a later page. The output file, when the job has opened
  it, holds what these \<open>m\<close> pages wrote, so only blocks of pages before \<open>k\<close>, and none of
  them is taken back; when the job has not opened it, it is as it was. The job does not
  end completed. When nothing stops the job before that check (the loop is entered, the
  flag is not set at an earlier check, the OCR tool starts on the pages before \<open>k\<close>), then
  \<open>m = k - 1\<close>: every page before \<open>k\<close> is in the file, and the job ends cancelled.
\<close>

theorem cancelled_before_page:
  assumes "1 \<le> k" and "k \<le> length (image_files w)"
    and "cancelled w (Page_start (k - 1))"
  shows "\<exists>m<k.
           runs (trace w) = pdftoppm_cmd w # map (tesseract_cmd w) (take m (image_files w)) \<and>
           file_content old (trace w) =
             (if enters_loop w
              then Some (concat (map (block_of w) (take m (numbered (image_files w)))))
              else old) \<and>
           job_outcome w \<noteq> Completed \<and>
           (enters_loop w \<and> (\<forall>i<k - 1. \<not> cancelled w (Page_start i)) \<and>
            (\<forall>f \<in> set (take (k - 1) (image_files w)). launched w f)
            \<longrightarrow> m = k - 1 \<and> job_outcome w = Cancelled)"
proof (cases "enters_loop w")
  case False
  then have "fst (process_body w) \<noteq> Normal" by (simp add: body_flow_Normal)
  then have "job_outcome w \<noteq> Completed"
    by (cases "fst (process_body w)") (simp_all add: job_outcome_flow)
  with False assms(1) show ?thesis
    by (intro exI [of _ 0]) (simp add: job_runs job_file)
next
  case True
  let ?fs = "image_files w"
  have "\<not> k - 1 < pages_run w"
  proof
    assume "k - 1 < pages_run w"
    then have "\<not> cancelled w (Page_start (0 + (k - 1)))"
      unfolding pages_run_def by (rule pages_started_not_cancelled)
    with assms(3) show False by simp
  qed
  with assms(1) have m: "pages_run w < k" by simp
  with assms(2) have "pages_run w \<noteq> length ?fs" by simp
  then have "fst (process_body w) \<noteq> Normal" by (simp add: body_flow_Normal)
  then have nc: "job_outcome w \<noteq> Completed"
    by (cases "fst (process_body w)") (simp_all add: job_outcome_flow)
  have exact: "pages_run w = k - 1 \<and> job_outcome w = Cancelled"
    if a: "\<forall>i<k - 1. \<not> cancelled w (Page_start i)"
      and l: "\<forall>f \<in> set (take (k - 1) ?fs). launched w f"
  proof -
    have "pages_started w 0 ?fs = k - 1 \<and> fst (ocr_loop w (length ?fs) 0 ?fs) = Return"
      using assms a l by (intro pages_started_stop) simp_all
    with True show ?thesis by (simp add: pages_run_def body_flow_Return)
  qed
  from True m nc exact show ?thesis
    by (intro exI [of _ "pages_run w"]) (simp add: job_runs job_file)
qed

theorem cancelled_before_page_witness:
  "1 \<le> (2::nat) \<and> 2 \<le> length (image_files cancel_during_page_1) \<and>
   cancelled cancel_during_page_1 (Page_start (2 - 1)) \<and>
   runs (trace cancel_during_page_1) =
     [[''pdftoppm'', ''doc.pdf'', ''/tmp/ocr_a/page'', ''-png''],
      [''tesseract'', ''/tmp/ocr_a/page-1.png'', ''stdout'', ''-l'', ''eng'']] \<and>
   file_content (Some ''stale'') (trace cancel_during_page_1) =
     Some ''\<newline>\<newline>--- Page 1 ---\<newline>One'' \<and>
   job_outcome cancel_during_page_1 = Cancelled"
proof -
  let ?w = cancel_during_page_1
  have h1: "1 \<le> (2::nat)" by simp
  have h2: "2 \<le> length (image_files ?w)" by code_simp
  have h3: "cancelled ?w (Page_start (2 - 1))" by code_simp
  have e: "enters_loop ?w" by code_simp
  have a: "\<forall>i<2 - 1. \<not> cancelled ?w (Page_start i)"
    by (simp add: cancel_during_page_1_def example_world_def)
  have l: "\<forall>f \<in> set (take (2 - 1) (image_files ?w)). launched ?w f" by code_simp
  have t: "pdftoppm_cmd ?w # map (tesseract_cmd ?w) (take (2 - 1) (image_files ?w)) =
     [[''pdftoppm'', ''doc.pdf'', ''/tmp/ocr_a/page'', ''-png''],
      [''tesseract'', ''/tmp/ocr_a/page-1.png'', ''stdout'', ''-l'', ''eng'']]"
    by code_simp
  have b: "concat (map (block_of ?w) (take (2 - 1) (numbered (image_files ?w)))) =
     ''\<newline>\<newline>--- Page 1 ---\<newline>One''"
    by code_simp
  from cancelled_before_page [OF h1 h2 h3, of "Some ''stale''"] e a l
  have "runs (trace ?w) = pdftoppm_cmd ?w # map (tesseract_cmd ?w) (take (2 - 1) (image_files ?w)) \<and>
        file_content (Some ''stale'') (trace ?w) =
          Some (concat (map (block_of ?w) (take (2 - 1) (numbered (image_files ?w))))) \<and>
        job_outcome ?w = Cancelled"
    by auto
  with t b h1 h2 h3 show ?thesis by simp
qed

text \<open>
  Claim C4 says that the value emitted at the start of page \<open>i\<close> of \<open>N\<close> equals
  \<open>20 + 70 * (i - 1) / N\<close>. Line 412 computes the value in binary floating point, so what
  is emitted is a double, and the exact value is not always one: in this job of three
  pages the value emitted at the start of page 2 is the double 43.33333333333333, which is
  not \<open>130 / 3\<close>.
\<close>

theorem progress_value_counterexample:
  "length (image_files second_fails) = 3 \<and>
   progress_values (trace second_fails) ! 2 = 3049312247698773 / 70368744177664 \<and>
   page_progress 3 2 = 130 / 3 \<and>
   progress_values (trace second_fails) ! 2 \<noteq> page_progress 3 2"
  by code_simp

text \<open>
  Claim C4 as amended. In every job the values the method gives to the progress variable,
  in the order in which it sets them, never decrease and never exceed 100. They are 10,
  then at the start of page \<open>i\<close>, for the pages \<open>1, ..., m\<close> that are started (all \<open>N\<close> of them
  when the loop runs to its end), the double that line 412 computes for
  \<open>20 + 70 * (i - 1) / N\<close>, then at most 95 and 100. The double of page \<open>i\<close> differs from
  the exact value \<open>20 + 70 * (i - 1) / N\<close> by at most \<open>2\<^sup>-\<^sup>4\<^sup>6\<close>. The reset of the bar to 0
  that \<^verbatim>\<open>reset_ui\<close> performs is scheduled for the window's thread by the \<^verbatim>\<open>finally\<close>
  clause and is not a value the job emits.
\<close>

theorem progress_non_decreasing:
  "sorted (progress_values (trace w)) \<and>
   (\<forall>p \<in> set (progress_values (trace w)). p \<le> 100) \<and>
   (\<exists>m \<le> length (image_files w). \<exists>rest.
      progress_values (trace w) =
        10 # map (page_value (length (image_files w))) [1..<Suc m] @ rest \<and>
      (rest = [] \<or> rest = [100] \<or> rest = [95] \<or> rest = [95, 100]) \<and>
      (loop_completes w \<longrightarrow> m = length (image_files w))) \<and>
   (\<forall>i. 1 \<le> i \<and> i \<le> length (image_files w) \<longrightarrow>
      \<bar>page_value (length (image_files w)) i - page_progress (length (image_files w)) i\<bar>
        \<le> 1 / 2 ^ 46)"
proof -
  let ?N = "length (image_files w)"
  define m where "m = (if enters_loop w then pages_run w else 0)"
  define rest where "rest =
    (if enters_loop w \<and> fst (recognise w) = Normal
     then progress_values (snd (cleanup_and_complete w)) else [])"
  have m: "m \<le> ?N"
    by (simp add: m_def pages_run_def pages_started_le)
  have shape: "progress_values (trace w) = 10 # map (page_value ?N) [1..<Suc m] @ rest"
    by (simp add: job_progress m_def rest_def map_page_value del: upt_Suc)
  have rest: "rest = [] \<or> rest = [100] \<or> rest = [95] \<or> rest = [95, 100]"
    by (simp add: rest_def cleanup_progress)
  have full: "loop_completes w \<longrightarrow> m = ?N"
    by (simp add: loop_completes_def m_def never_cancelled_all)
  have bounds: "10 \<le> page_value ?N i" "page_value ?N i \<le> 95" "page_value ?N i \<le> 100"
    if "Suc 0 \<le> i" "i < Suc m" for i
    using page_value_bounds [of i ?N] that m by simp_all
  have c1: "sorted (progress_values (trace w))"
    unfolding shape using rest sorted_page_value [of ?N m]
    by (auto simp: sorted_append bounds simp del: upt_Suc)
  have c2: "\<forall>p \<in> set (progress_values (trace w)). p \<le> 100"
    unfolding shape using rest by (auto simp: bounds simp del: upt_Suc)
  have c3: "\<exists>m \<le> ?N. \<exists>rest.
      progress_values (trace w) = 10 # map (page_value ?N) [1..<Suc m] @ rest \<and>
      (rest = [] \<or> rest = [100] \<or> rest = [95] \<or> rest = [95, 100]) \<and>
      (loop_completes w \<longrightarrow> m = ?N)"
    using shape m rest full by blast
  have c4: "\<forall>i. 1 \<le> i \<and> i \<le> ?N \<longrightarrow>
      \<bar>page_value ?N i - page_progress ?N i\<bar> \<le> 1 / 2 ^ 46"
    using page_value_error by blast
  from c1 c2 c3 c4 show ?thesis by blast
qed

theorem progress_non_decreasing_witness:
  "loop_completes second_fails \<and>
   progress_values (trace second_fails) =
     [10, 20, 3049312247698773 / 70368744177664, 2345624805922133 / 35184372088832, 95, 100] \<and>
   sorted (progress_values (trace second_fails)) \<and>
   list_all (\<lambda>p. p \<le> 100) (progress_values (trace second_fails)) \<and>
   \<bar>page_value (length (image_files second_fails)) 2
      - page_progress (length (image_files second_fails)) 2\<bar> \<le> 1 / 2 ^ 46"
proof -
  have v: "progress_values (trace second_fails) =
     [10, 20, 3049312247698773 / 70368744177664, 2345624805922133 / 35184372088832, 95, 100]"
    by code_simp
  have l: "loop_completes second_fails" by code_simp
  have n: "(1::nat) \<le> 2 \<and> 2 \<le> length (image_files second_fails)" by code_simp
  from progress_non_decreasing [of second_fails] v l n show ?thesis
    by (simp only: list_all_iff) blast
qed

text \<open>
  Claim C5 says that with the cleanup option set the temporary directory is gone after a
  job that ends completed or cancelled. The two \<^verbatim>\<open>return\<close> statements that end a
  cancelled job (lines 392 and 409) leave the method before the cleanup step of line 430,
  which only the path to completion reaches (\<open>completed_work_area\<close>). So the directory
  and the images in it stay behind after every cancelled job
  (\<open>cancelled_keeps_work_area\<close>), also when the option is set, as in this job, cancelled
  while page 1 is recognised.
\<close>

theorem cancelled_job_leaves_work_area:
  "cleanup_images cancel_during_page_1 \<and>
   job_outcome cancel_during_page_1 = Cancelled \<and>
   work_area_exists False (trace cancel_during_page_1)"
  by code_simp


text \<open>
  Claim C6 says that a failure to remove the temporary directory is logged as a warning
  and that the job still completes. \<^verbatim>\<open>shutil.rmtree(temp_dir)\<close> is called without
  \<^verbatim>\<open>ignore_errors\<close> and outside any handler of its own, so its exception reaches the
  \<^verbatim>\<open>except Exception\<close> clause of the method like every other one. In this job all three
  pages are recognised and the removal raises: the job ends in error, no warning is
  logged, and neither the value 100 nor the final success line is emitted.
\<close>

theorem cleanup_failure_counterexample:
  "loop_completes rmtree_fails \<and> cleanup_images rmtree_fails \<and>
   rmtree rmtree_fails = Some ''[Errno 13] Permission denied'' \<and>
   job_outcome rmtree_fails = FatalError \<and>
   100 \<notin> set (progress_values (trace rmtree_fails)) \<and>
   WARNING \<notin> set (map fst (logs (trace rmtree_fails))) \<and>
   (SUCCESS, ''OCR processing completed successfully!'') \<notin> set (logs (trace rmtree_fails)) \<and>
   last (logs (trace rmtree_fails)) = (ERROR, ''Error: [Errno 13] Permission denied'')"
  by code_simp



text \<open>
  Claim C6 as amended. In a job that reaches the cleanup step with the cleanup option set,
  an exception of the removal of the temporary directory ends the job in error: the log
  is the start line, the line with the page count, one line per page and then the
  \<^verbatim>\<open>ERROR\<close> line with the message of the exception; the final success lines are not
  logged; the progress values, 10 and then the doubles of the pages, end at 95, and 100
  is not among them. The output file keeps
  every block that was written.
\<close>

theorem cleanup_failure_is_fatal:
  assumes "loop_completes w" and "cleanup_images w" and "rmtree w = Some e"
  shows "job_outcome w = FatalError \<and>
         logs (trace w) =
           [(INFO, ''Starting OCR processing...''),
            (SUCCESS, ''Generated '' @ str_nat (length (image_files w)) @ '' images from PDF'')] @
           map (page_log w) (numbered (image_files w)) @
           [(ERROR, ''Error: '' @ e)] \<and>
         (SUCCESS, ''OCR processing completed successfully!'') \<notin> set (logs (trace w)) \<and>
         progress_values (trace w) =
           10 # map (page_value (length (image_files w))) [1..<Suc (length (image_files w))]
             @ [95] \<and>
         100 \<notin> set (progress_values (trace w)) \<and>
         file_content old (trace w) =
           Some (concat (map (block_of w) (numbered (image_files w))))"
proof -
  let ?fs = "image_files w"
  from assms(1) have enters: "enters_loop w" and launched: "\<forall>f \<in> set ?fs. launched w f"
    by (simp_all add: loop_completes_def)
  note run_all = loop_completes_run_all [OF assms(1)]
  note phases = loop_completes_recognise [OF assms(1)]
  from phases assms(2,3) have flow: "fst (process_body w) = Raise e"
    by (simp add: process_body_def fst_seq cleanup_flow)
  then have c1: "job_outcome w = FatalError" by (simp add: job_outcome_flow)
  have c2: "logs (trace w) =
           [(INFO, ''Starting OCR processing...''),
            (SUCCESS, ''Generated '' @ str_nat (length ?fs) @ '' images from PDF'')] @
           map (page_log w) (numbered ?fs) @ [(ERROR, ''Error: '' @ e)]"
    using phases flow assms(2,3) run_all page_logs_all_launched [OF launched]
    by (simp add: job_logs [OF enters] cleanup_logs length_numbered [symmetric])
  have "(SUCCESS, ''OCR processing completed successfully!'') \<notin> set (map (page_log w) (numbered ?fs))"
    using page_log_level [of w] by (auto simp: prod_eq_iff) (metis level.distinct(1,7))
  then have c3: "(SUCCESS, ''OCR processing completed successfully!'') \<notin> set (logs (trace w))"
    by (simp add: c2)
  have c4: "progress_values (trace w) =
           10 # map (page_value (length ?fs)) [1..<Suc (length ?fs)] @ [95]"
    using enters phases assms(2,3) run_all
    by (simp add: job_progress cleanup_progress map_page_value del: upt_Suc)
  have "page_value (length ?fs) i \<noteq> 100" if "Suc 0 \<le> i" "i \<le> length ?fs" for i
    using page_value_bounds [of i "length ?fs"] that by simp
  then have c5: "100 \<notin> set (progress_values (trace w))"
    by (auto simp: c4 simp del: upt_Suc)
  have c6: "file_content old (trace w) = Some (concat (map (block_of w) (numbered ?fs)))"
    using enters run_all by (simp add: job_file length_numbered [symmetric])
  from c1 c2 c3 c4 c5 c6 show ?thesis by blast
qed

theorem cleanup_failure_is_fatal_witness:
  "loop_completes rmtree_fails \<and> cleanup_images rmtree_fails \<and>
   rmtree rmtree_fails = Some ''[Errno 13] Permission denied'' \<and>
   job_outcome rmtree_fails = FatalError \<and>
   logs (trace rmtree_fails) =
     [(INFO, ''Starting OCR processing...''), (SUCCESS, ''Generated 3 images from PDF''),
      (INFO, ''Processed page 1''), (INFO, ''Processed page 2''), (INFO, ''Processed page 3''),
      (ERROR, ''Error: [Errno 13] Permission denied'')] \<and>
   progress_values (trace rmtree_fails) =
     [10, 20, 3049312247698773 / 70368744177664, 2345624805922133 / 35184372088832, 95] \<and>
   file_content None (trace rmtree_fails) =
     Some ''\<newline>\<newline>--- Page 1 ---\<newline>One\<newline>\<newline>--- Page 2 ---\<newline>Two\<newline>\<newline>--- Page 3 ---\<newline>Three''"
proof -
  let ?w = rmtree_fails
  have h1: "loop_completes ?w" by code_simp
  have h2: "cleanup_images ?w" by code_simp
  have h3: "rmtree ?w = Some ''[Errno 13] Permission denied''" by code_simp
  have v1: "[(INFO, ''Starting OCR processing...''),
            (SUCCESS, ''Generated '' @ str_nat (length (image_files ?w)) @ '' images from PDF'')] @
           map (page_log ?w) (numbered (image_files ?w)) @
           [(ERROR, ''Error: '' @ ''[Errno 13] Permission denied'')] =
     [(INFO, ''Starting OCR processing...''), (SUCCESS, ''Generated 3 images from PDF''),
      (INFO, ''Processed page 1''), (INFO, ''Processed page 2''), (INFO, ''Processed page 3''),
      (ERROR, ''Error: [Errno 13] Permission denied'')]"
    by code_simp
  have v2: "10 # map (page_value (length (image_files ?w))) [1..<Suc (length (image_files ?w))]
             @ [95] =
     [10, 20, 3049312247698773 / 70368744177664, 2345624805922133 / 35184372088832, 95]"
    by code_simp
  have v3: "concat (map (block_of ?w) (numbered (image_files ?w))) =
     ''\<newline>\<newline>--- Page 1 ---\<newline>One\<newline>\<newline>--- Page 2 ---\<newline>Two\<newline>\<newline>--- Page 3 ---\<newline>Three''"
    by code_simp
  from cleanup_failure_is_fatal [OF h1 h2 h3, of None] v1 v2 v3 h1 h2 h3
  show ?thesis by (simp del: upt_Suc)
qed

text \<open>
  Claim C7 says that the flag is polled before the rasteriser is invoked, so that a flag
  set before the call keeps the rasteriser from running. The method reads the flag for the
  first time at line 391, after \<^verbatim>\<open>subprocess.run\<close> has returned at line 386. In this job
  the flag is set from the start, and \<^verbatim>\<open>pdftoppm\<close> is run all the same.
\<close>

theorem flag_before_rasteriser_counterexample:
  "cancelled cancel_at_start Before_pdftoppm \<and>
   pdftoppm_cmd cancel_at_start \<in> set (runs (trace cancel_at_start))"
  by code_simp

text \<open>
  Claim C7 as amended. The flag is polled right after the rasteriser has returned with
  status zero and at the top of each iteration of the loop over the pages, not before the
  rasteriser is invoked: the rasteriser is the first external command of every job,
  whatever the flag holds. When the flag is set at the check after the rasteriser the job
  ends cancelled with no OCR run and the output file untouched; when it is set at the top
  of an iteration the loop is left at once, before anything is done for that page.
\<close>

theorem flag_polled_after_rasteriser:
  "(\<exists>rest. runs (trace w) = pdftoppm_cmd w # rest) \<and>
   (rasterised w \<and> cancelled w After_pdftoppm \<longrightarrow>
      job_outcome w = Cancelled \<and> runs (trace w) = [pdftoppm_cmd w] \<and>
      file_content old (trace w) = old) \<and>
   (cancelled w (Page_start i) \<longrightarrow> ocr_loop w total_pages i (image_file # rest') = (Return, []))"
proof -
  have c1: "\<exists>rest. runs (trace w) = pdftoppm_cmd w # rest"
    by (simp add: job_runs)
  have c2: "job_outcome w = Cancelled \<and> runs (trace w) = [pdftoppm_cmd w] \<and>
      file_content old (trace w) = old"
    if r: "rasterised w" and c: "cancelled w After_pdftoppm"
  proof -
    from r c have "fst (rasterise w) = Return"
      by (auto simp: rasterise_def rasterised_def Let_def split: sum.splits)
    then have "fst (process_body w) = Return" by (simp add: process_body_def fst_seq)
    then have "job_outcome w = Cancelled" by (simp add: job_outcome_flow)
    moreover from c have "\<not> enters_loop w" by (simp add: enters_loop_def)
    ultimately show ?thesis by (simp add: job_runs job_file)
  qed
  have c3: "cancelled w (Page_start i) \<longrightarrow>
      ocr_loop w total_pages i (image_file # rest') = (Return, [])"
    by simp
  from c1 c2 c3 show ?thesis by blast
qed

theorem flag_polled_after_rasteriser_witness:
  "rasterised cancel_during_pdftoppm \<and> cancelled cancel_during_pdftoppm After_pdftoppm \<and>
   job_outcome cancel_during_pdftoppm = Cancelled \<and>
   runs (trace cancel_during_pdftoppm) =
     [[''pdftoppm'', ''doc.pdf'', ''/tmp/ocr_a/page'', ''-png'']] \<and>
   file_content (Some ''stale'') (trace cancel_during_pdftoppm) = Some ''stale'' \<and>
   cancelled cancel_during_pdftoppm (Page_start 0) \<and>
   ocr_loop cancel_during_pdftoppm 3 0 [''page-1.png'', ''page-2.png'', ''page-3.png'']
     = (Return, [])"
proof -
  let ?w = cancel_during_pdftoppm
  have h1: "rasterised ?w" by code_simp
  have h2: "cancelled ?w After_pdftoppm" by code_simp
  have h3: "cancelled ?w (Page_start 0)" by code_simp
  have v: "pdftoppm_cmd ?w = [''pdftoppm'', ''doc.pdf'', ''/tmp/ocr_a/page'', ''-png'']"
    by code_simp
  from flag_polled_after_rasteriser
         [of ?w "Some ''stale''" 0 3 "''page-1.png''" "[''page-2.png'', ''page-3.png'']"]
       h1 h2 h3 v
  show ?thesis by simp
qed

text \<open>
  Claim C8 says that every job whose rasteriser exits with status zero and leaves no image
  fails with the error about the missing pages. The check of the flag at line 391 comes
  before the count of the images at line 395, so a job cancelled while the rasteriser runs
  returns there and ends cancelled, with no error, also when there is no image.
\<close>

theorem no_images_counterexample:
  "rasterised no_images_cancelled \<and> image_files no_images_cancelled = [] \<and>
   job_outcome no_images_cancelled = Cancelled \<and>
   ERROR \<notin> set (map fst (logs (trace no_images_cancelled)))"
  by code_simp

text \<open>
  Claim C8 as amended. In a job whose rasteriser exits with status zero and leaves no file
  with a name ending in \<^verbatim>\<open>.png\<close>, and in which the flag is not set at the check after the
  rasteriser, the job ends in error with the message \<^verbatim>\<open>No images generated from PDF\<close>; the
  rasteriser is the only external command that was run, so no OCR run precedes the
  failure, and the output file is not touched.
\<close>

theorem no_images_is_fatal:
  assumes "rasterised w" and "image_files w = []" and "\<not> cancelled w After_pdftoppm"
  shows "job_outcome w = FatalError \<and>
         logs (trace w) =
           [(INFO, ''Starting OCR processing...''),
            (ERROR, ''Error: No images generated from PDF'')] \<and>
         runs (trace w) = [pdftoppm_cmd w] \<and>
         file_content old (trace w) = old"
proof -
  from assms have r: "rasterise w = (Raise ''No images generated from PDF'',
      [Mkdtemp (temp_dir w), Log INFO ''Starting OCR processing...'',
       Status ''Converting PDF to images...'', Progress 10,
       Label ''Converting PDF to images...'', Run (pdftoppm_cmd w)])"
    by (auto simp: rasterise_def rasterised_def Let_def split: sum.splits)
  then have flow: "fst (process_body w) = Raise ''No images generated from PDF''"
    by (simp add: process_body_def fst_seq)
  then have c1: "job_outcome w = FatalError" by (simp add: job_outcome_flow)
  from r flow have c2: "logs (trace w) =
           [(INFO, ''Starting OCR processing...''),
            (ERROR, ''Error: No images generated from PDF'')]"
    by (simp add: trace_logs process_body_def snd_seq read_simps)
  from assms(2) have "\<not> enters_loop w" by (simp add: enters_loop_def)
  then have c3: "runs (trace w) = [pdftoppm_cmd w] \<and> file_content old (trace w) = old"
    by (simp add: job_runs job_file)
  from c1 c2 c3 show ?thesis by blast
qed

theorem no_images_is_fatal_witness:
  "rasterised no_images \<and> image_files no_images = [] \<and>
   \<not> cancelled no_images After_pdftoppm \<and>
   job_outcome no_images = FatalError \<and>
   logs (trace no_images) =
     [(INFO, ''Starting OCR processing...''),
      (ERROR, ''Error: No images generated from PDF'')] \<and>
   runs (trace no_images) = [[''pdftoppm'', ''doc.pdf'', ''/tmp/ocr_a/page'', ''-png'']] \<and>
   file_content (Some ''stale'') (trace no_images) = Some ''stale''"
proof -
  have h1: "rasterised no_images" by code_simp
  have h2: "image_files no_images = []" by code_simp
  have h3: "\<not> cancelled no_images After_pdftoppm" by code_simp
  have v: "pdftoppm_cmd no_images = [''pdftoppm'', ''doc.pdf'', ''/tmp/ocr_a/page'', ''-png'']"
    by code_simp
  from no_images_is_fatal [OF h1 h2 h3, of "Some ''stale''"] v h1 h2 h3
  show ?thesis by simp
qed


text \<open>
  Claim C9. In a job that reaches the recognition phase (the loop is entered, so the output
  file has been opened), the output file is opened for writing, which empties it whatever
  it held, after the rasteriser and before any OCR run: the events before the opening hold
  no other external command than the rasteriser's. So when no page is recognised the file
  exists at the end of the job and is empty.
\<close>

theorem output_truncated_before_recognition:
  assumes "enters_loop w"
  shows "(\<exists>pre post. trace w = pre @ Open_w (output_path w) # post \<and>
            runs pre = [pdftoppm_cmd w] \<and>
            file_content old (pre @ [Open_w (output_path w)]) = Some []) \<and>
         ((\<forall>f \<in> set (image_files w). \<not> recognised w f) \<longrightarrow>
            file_content old (trace w) = Some [])"
proof -
  from body_events_loop [OF assms] obtain post
    where "snd (process_body w) = snd (rasterise w) @ Open_w (output_path w) # post" ..
  then have "trace w = snd (rasterise w) @ Open_w (output_path w) #
      (post @ (case fst (process_body w) of Raise e \<Rightarrow> handler e | _ \<Rightarrow> []) @ [Schedule_reset_ui])"
    by (simp add: trace_body)
  moreover have "runs (snd (rasterise w)) = [pdftoppm_cmd w]" by (rule rasterise_runs)
  moreover have "file_content old (snd (rasterise w) @ [Open_w (output_path w)]) = Some []"
    by (simp add: file_content_append rasterise_file)
  ultimately have c1: "\<exists>pre post. trace w = pre @ Open_w (output_path w) # post \<and>
            runs pre = [pdftoppm_cmd w] \<and>
            file_content old (pre @ [Open_w (output_path w)]) = Some []"
    by blast
  have c2: "(\<forall>f \<in> set (image_files w). \<not> recognised w f) \<longrightarrow>
            file_content old (trace w) = Some []"
    using assms by (simp add: job_file no_block_if_none_recognised)
  from c1 c2 show ?thesis by blast
qed

theorem output_truncated_before_recognition_witness:
  "enters_loop all_fail \<and>
   list_all (\<lambda>f. \<not> recognised all_fail f) (image_files all_fail) \<and>
   file_content (Some ''stale'') (trace all_fail) = Some [] \<and>
   job_outcome all_fail = Completed"
proof -
  have h1: "enters_loop all_fail" by code_simp
  have h2: "\<forall>f \<in> set (image_files all_fail). \<not> recognised all_fail f" by code_simp
  have v: "job_outcome all_fail = Completed" by code_simp
  from output_truncated_before_recognition [OF h1, of "Some ''stale''"] h1 h2 v
  show ?thesis by (simp add: list_all_iff)
qed

text \<open>
  Claim C10. The pages of a job are the names of the listing that end in \<^verbatim>\<open>.png\<close>, in
  sorted order; the page number of a file is its position, from 1, in that sorted list, so
  the numbers are \<open>1, ..., N\<close> whatever numbers the names contain, and two listings of the
  same directory in different orders give the same pages. In a job whose loop runs to its
  end the OCR tool is run on exactly these files in this order, and the blocks of the file
  and the log lines of the pages carry these numbers.
\<close>

theorem pages_numbered_by_sorted_position:
  "set (image_files w) = {f \<in> set (listdir w). endswith f ''.png''} \<and>
   sorted (image_files w) \<and>
   map fst (numbered (image_files w)) = [1..<Suc (length (image_files w))] \<and>
   map snd (numbered (image_files w)) = image_files w \<and>
   (distinct (listdir w) \<and> distinct (listdir w') \<and> set (listdir w') = set (listdir w) \<longrightarrow>
      image_files w' = image_files w) \<and>
   (loop_completes w \<longrightarrow>
      runs (trace w) = pdftoppm_cmd w # map (tesseract_cmd w) (image_files w) \<and>
      file_content old (trace w) =
        Some (concat (map (block_of w) (numbered (image_files w)))) \<and>
      (\<exists>rest. logs (trace w) =
         [(INFO, ''Starting OCR processing...''),
          (SUCCESS, ''Generated '' @ str_nat (length (image_files w)) @ '' images from PDF'')] @
         map (page_log w) (numbered (image_files w)) @ rest))"
proof -
  let ?fs = "image_files w"
  have c4: "map snd (numbered ?fs) = ?fs" by (simp add: numbered_def)
  have c5: "distinct (listdir w) \<and> distinct (listdir w') \<and> set (listdir w') = set (listdir w) \<longrightarrow>
      image_files w' = image_files w"
    by (simp add: image_files_listing_order)
  have c6: "runs (trace w) = pdftoppm_cmd w # map (tesseract_cmd w) ?fs \<and>
      file_content old (trace w) = Some (concat (map (block_of w) (numbered ?fs))) \<and>
      (\<exists>rest. logs (trace w) =
         [(INFO, ''Starting OCR processing...''),
          (SUCCESS, ''Generated '' @ str_nat (length ?fs) @ '' images from PDF'')] @
         map (page_log w) (numbered ?fs) @ rest)"
    if lc: "loop_completes w"
  proof -
    from lc have enters: "enters_loop w" and launched: "\<forall>f \<in> set ?fs. launched w f"
      by (simp_all add: loop_completes_def)
    note run_all = loop_completes_run_all [OF lc]
    have "runs (trace w) = pdftoppm_cmd w # map (tesseract_cmd w) ?fs"
      using enters run_all by (simp add: job_runs)
    moreover have "file_content old (trace w) = Some (concat (map (block_of w) (numbered ?fs)))"
      using enters run_all by (simp add: job_file length_numbered [symmetric])
    moreover have "\<exists>rest. logs (trace w) =
         [(INFO, ''Starting OCR processing...''),
          (SUCCESS, ''Generated '' @ str_nat (length ?fs) @ '' images from PDF'')] @
         map (page_log w) (numbered ?fs) @ rest"
      using run_all page_logs_all_launched [OF launched]
      by (simp add: job_logs [OF enters] length_numbered [symmetric])
    ultimately show ?thesis by blast
  qed
  from c4 c5 c6 image_files_set [of w] image_files_sorted [of w] map_fst_numbered [of ?fs]
  show ?thesis by blast
qed

theorem pages_numbered_by_sorted_position_witness:
  "loop_completes unpadded \<and>
   distinct (listdir unpadded) \<and> distinct (listdir unpadded_reordered) \<and>
   set (listdir unpadded_reordered) = set (listdir unpadded) \<and>
   image_files unpadded_reordered = image_files unpadded \<and>
   image_files unpadded = [''page-10.png'', ''page-2.png''] \<and>
   numbered (image_files unpadded) = [(1, ''page-10.png''), (2, ''page-2.png'')] \<and>
   runs (trace unpadded) =
     [[''pdftoppm'', ''doc.pdf'', ''/tmp/ocr_a/page'', ''-png''],
      [''tesseract'', ''/tmp/ocr_a/page-10.png'', ''stdout'', ''-l'', ''eng''],
      [''tesseract'', ''/tmp/ocr_a/page-2.png'', ''stdout'', ''-l'', ''eng'']] \<and>
   file_content None (trace unpadded) =
     Some ''\<newline>\<newline>--- Page 1 ---\<newline>tenth\<newline>\<newline>--- Page 2 ---\<newline>second''"
proof -
  let ?w = unpadded
  have h: "loop_completes ?w" by code_simp
  have v1: "image_files ?w = [''page-10.png'', ''page-2.png'']" by code_simp
  have v2: "numbered (image_files ?w) = [(1, ''page-10.png''), (2, ''page-2.png'')]" by code_simp
  have v3: "pdftoppm_cmd ?w # map (tesseract_cmd ?w) (image_files ?w) =
     [[''pdftoppm'', ''doc.pdf'', ''/tmp/ocr_a/page'', ''-png''],
      [''tesseract'', ''/tmp/ocr_a/page-10.png'', ''stdout'', ''-l'', ''eng''],
      [''tesseract'', ''/tmp/ocr_a/page-2.png'', ''stdout'', ''-l'', ''eng'']]"
    by code_simp
  have v4: "concat (map (block_of ?w) (numbered (image_files ?w))) =
     ''\<newline>\<newline>--- Page 1 ---\<newline>tenth\<newline>\<newline>--- Page 2 ---\<newline>second''"
    by code_simp
  have d1: "distinct (listdir ?w)" by code_simp
  have d2: "distinct (listdir unpadded_reordered)" by code_simp
  have d3: "set (listdir unpadded_reordered) = set (listdir ?w)"
    by (auto simp: unpadded_def unpadded_reordered_def example_world_def)
  from pages_numbered_by_sorted_position [of ?w unpadded_reordered None] h d1 d2 d3
  have "image_files unpadded_reordered = image_files ?w \<and>
        runs (trace ?w) = pdftoppm_cmd ?w # map (tesseract_cmd ?w) (image_files ?w) \<and>
        file_content None (trace ?w) =
          Some (concat (map (block_of ?w) (numbered (image_files ?w))))"
    by blast
  with h d1 d2 d3 v1 v2 v3 v4 show ?thesis by simp
qed

end
